theory Spec2Isabelle
  imports Complex_Main "HOL-Library.Char_ord" "HOL-Library.List_Lexorder"
begin

section \<open>Python strings\<close>

text \<open>
  A Python \<open>str\<close> is modelled as a \<open>string\<close>; a \<open>char\<close> stands for a code point
  below 256.  \<open>isspace\<close> is the whitespace test that \<open>str.strip()\<close> uses, on that
  range: TAB, LF, VT, FF, CR, the separators 0x1C..0x1F, SPACE, NEL (0x85) and NBSP (0xA0).
\<close>

definition isspace :: "char \<Rightarrow> bool" where
  "isspace c = ((of_char c :: nat) \<in> {9, 10, 11, 12, 13, 28, 29, 30, 31, 32, 133, 160})"

text \<open>\<open>s.strip()\<close>: leading and trailing whitespace removed.\<close>

definition str_strip :: "string \<Rightarrow> string" where
  "str_strip s = rev (dropWhile isspace (rev (dropWhile isspace s)))"

text \<open>
  \<open>s.split(sep)\<close> for a one-character separator: the text is cut at every
  occurrence of \<open>sep\<close>; empty pieces are kept, so the result is never empty.
  \<open>cur\<close> holds the piece being scanned, reversed.
\<close>

fun split_scan :: "char \<Rightarrow> string \<Rightarrow> string \<Rightarrow> string list" where
  "split_scan sep cur [] = [rev cur]"
| "split_scan sep cur (c # cs) =
     (if c = sep then rev cur # split_scan sep [] cs else split_scan sep (c # cur) cs)"

definition str_split :: "char \<Rightarrow> string \<Rightarrow> string list" where
  "str_split sep s = split_scan sep [] s"

text \<open>\<open>sep.join(parts)\<close>.\<close>

fun str_join :: "string \<Rightarrow> string list \<Rightarrow> string" where
  "str_join sep [] = []"
| "str_join sep [p] = p"
| "str_join sep (p # q # ps) = p @ sep @ str_join sep (q # ps)"

section \<open>Tag Parser\<close>

text \<open>
  The lambda of lines 52 and 53:
  \<^verbatim>\<open>lambda x: [s.strip() for s in x.split(",") if s.strip()]\<close>
  A string is truthy when it is not empty.
\<close>

definition tag_parser :: "string \<Rightarrow> string list" where
  "tag_parser x = [str_strip s. s \<leftarrow> str_split CHR '','' x, str_strip s \<noteq> []]"

text \<open>
  The algorithm in the words of the specification: split on the comma, trim each
  piece, discard the pieces that became empty.
\<close>

definition spec_tag_parser :: "string \<Rightarrow> string list" where
  "spec_tag_parser x = filter (\<lambda>p. p \<noteq> []) (map str_strip (str_split CHR '','' x))"

section \<open>Tables\<close>

text \<open>
  A float64 value.  A finite double is represented by the real number it denotes;
  \<open>NaN\<close> is also what pandas stores for a missing field.
\<close>

datatype fl = Fin real | PInf | NInf | NaN

text \<open>
  The objects a cell can hold: a float, a \<open>str\<close>, or (after lines 52 and 53) a list
  of \<open>str\<close>.  \<open>read_csv\<close> yields only the first two.
\<close>

datatype cell = Num fl | Text string | Tags "string list"

text \<open>
  How a run can stop.  \<open>DataUnavailable\<close> and \<open>SchemaError\<close> are the two
  \<open>st.error\<close>/\<open>st.stop()\<close> exits (lines 19 to 21 and 36 to 38); \<open>KeyError\<close>,
  \<open>TypeError\<close>, \<open>ValueError\<close> and \<open>AttributeError\<close> are uncaught Python exceptions.
  \<open>DuplicateLabel\<close>: a label the script indexes is carried by several columns, so
  that \<open>df[label]\<close> is a DataFrame instead of a Series; line 41 then raises, and
  what the script does in the other places is not modelled further.
\<close>

datatype error =
  DataUnavailable | SchemaError | KeyError | TypeError | ValueError | AttributeError
  | DuplicateLabel

text \<open>A DataFrame: the column labels and the rows, each row holding one cell per column.\<close>

record dataframe =
  columns :: "string list"
  rows :: "cell list list"

definition rectangular :: "dataframe \<Rightarrow> bool" where
  "rectangular df = list_all (\<lambda>r. length r = length (columns df)) (rows df)"

definition positions :: "string \<Rightarrow> string list \<Rightarrow> nat list" where
  "positions name cols = [i \<leftarrow> [0..<length cols]. cols ! i = name]"

text \<open>\<open>df[name]\<close>, read.\<close>

definition getitem :: "dataframe \<Rightarrow> string \<Rightarrow> error + cell list" where
  "getitem df name =
     (case positions name (columns df) of
        [] \<Rightarrow> Inl KeyError
      | [i] \<Rightarrow> Inr (map (\<lambda>r. r ! i) (rows df))
      | _ \<Rightarrow> Inl DuplicateLabel)"

text \<open>
  \<open>df[name] = values\<close>: an existing label is overwritten in every column that
  carries it, a new label is appended as the last column.
\<close>

definition setitem :: "dataframe \<Rightarrow> string \<Rightarrow> cell list \<Rightarrow> error + dataframe" where
  "setitem df name vs =
     (if length vs \<noteq> length (rows df) then Inl ValueError
      else if name \<in> set (columns df) then
        Inr (df\<lparr>rows :=
          map2 (\<lambda>r v. map2 (\<lambda>c x. if c = name then v else x) (columns df) r) (rows df) vs\<rparr>)
      else
        Inr (df\<lparr>columns := columns df @ [name],
                rows := map2 (\<lambda>r v. r @ [v]) (rows df) vs\<rparr>))"

text \<open>An element-wise operation that may raise: the first exception ends it.\<close>

fun traverse :: "('a \<Rightarrow> error + 'b) \<Rightarrow> 'a list \<Rightarrow> error + 'b list" where
  "traverse f [] = Inr []"
| "traverse f (x # xs) =
     (case f x of
        Inl e \<Rightarrow> Inl e
      | Inr y \<Rightarrow> (case traverse f xs of Inl e \<Rightarrow> Inl e | Inr ys \<Rightarrow> Inr (y # ys)))"

section \<open>Dataset Loader (lines 17 to 43)\<close>

text \<open>Line 24: \<open>df.columns = df.columns.str.strip()\<close>.\<close>

definition strip_columns :: "dataframe \<Rightarrow> dataframe" where
  "strip_columns df = df\<lparr>columns := map str_strip (columns df)\<rparr>"

text \<open>Lines 27 to 33: the dictionary given to \<open>df.rename(columns=...)\<close>.\<close>

definition aliases :: "(string \<times> string) list" where
  "aliases =
     [(''Name'', ''name''),
      (''Lat'', ''latitude''),
      (''Long'', ''longitude''),
      (''Latitude'', ''latitude''),
      (''Longitude'', ''longitude'')]"

definition rename :: "(string \<times> string) list \<Rightarrow> dataframe \<Rightarrow> dataframe" where
  "rename m df =
     df\<lparr>columns := map (\<lambda>c. case map_of m c of Some c' \<Rightarrow> c' | None \<Rightarrow> c) (columns df)\<rparr>"

definition normalize_columns :: "dataframe \<Rightarrow> dataframe" where
  "normalize_columns df = rename aliases (strip_columns df)"

text \<open>
  Lines 41 and 42: \<open>df[name] = pd.to_numeric(df[name], errors='coerce')\<close>.
  A float stays as it is; \<open>coerce\<close> is pandas' conversion of any other object: the
  number a text denotes, \<open>NaN\<close> when it denotes none.
\<close>

definition to_numeric :: "(cell \<Rightarrow> fl) \<Rightarrow> cell \<Rightarrow> cell" where
  "to_numeric coerce c = (case c of Num x \<Rightarrow> Num x | _ \<Rightarrow> Num (coerce c))"

definition force_numeric :: "(cell \<Rightarrow> fl) \<Rightarrow> string \<Rightarrow> dataframe \<Rightarrow> error + dataframe" where
  "force_numeric coerce name df =
     (case getitem df name of
        Inl e \<Rightarrow> Inl e
      | Inr xs \<Rightarrow> setitem df name (map (to_numeric coerce) xs))"

text \<open>Line 43: \<open>df.dropna(subset=[...])\<close> keeps the rows with no NaN in the named columns.\<close>

definition isna :: "cell \<Rightarrow> bool" where
  "isna c = (c = Num NaN)"

definition dropna :: "string list \<Rightarrow> dataframe \<Rightarrow> error + dataframe" where
  "dropna labels df =
     (if \<not> set labels \<subseteq> set (columns df) then Inl KeyError
      else Inr (df\<lparr>rows :=
        filter (\<lambda>r. list_all (\<lambda>(c, x). c \<in> set labels \<longrightarrow> \<not> isna x) (zip (columns df) r))
          (rows df)\<rparr>))"

text \<open>
  The loader.  \<open>file\<close> is what \<open>pd.read_csv\<close> finds: \<open>None\<close> when the file does
  not exist.
\<close>

definition loader :: "(cell \<Rightarrow> fl) \<Rightarrow> dataframe option \<Rightarrow> error + dataframe" where
  "loader coerce file =
     (case file of
        None \<Rightarrow> Inl DataUnavailable
      | Some df0 \<Rightarrow>
          let df = normalize_columns df0 in
          if ''latitude'' \<notin> set (columns df) \<or> ''longitude'' \<notin> set (columns df)
          then Inl SchemaError
          else
            (case force_numeric coerce ''latitude'' df of
               Inl e \<Rightarrow> Inl e
             | Inr df1 \<Rightarrow>
                 (case force_numeric coerce ''longitude'' df1 of
                    Inl e \<Rightarrow> Inl e
                  | Inr df2 \<Rightarrow> dropna [''latitude'', ''longitude''] df2)))"

section \<open>Coordinate Jitterer (lines 46 and 47)\<close>

text \<open>
  A float plus a finite float.  \<open>rnd\<close> is the rounding of the exact sum to a double
  (an infinity when the sum overflows); an infinity and NaN absorb the finite summand.
\<close>

definition fl_add :: "(real \<Rightarrow> fl) \<Rightarrow> fl \<Rightarrow> real \<Rightarrow> fl" where
  "fl_add rnd x d = (case x of Fin a \<Rightarrow> rnd (a + d) | _ \<Rightarrow> x)"

text \<open>\<open>series + array\<close>, element by element.\<close>

definition series_add :: "(real \<Rightarrow> fl) \<Rightarrow> cell list \<Rightarrow> real list \<Rightarrow> error + cell list" where
  "series_add rnd xs ds =
     (if length xs \<noteq> length ds then Inl ValueError
      else traverse (\<lambda>(c, d). case c of Num x \<Rightarrow> Inr (Num (fl_add rnd x d)) | _ \<Rightarrow> Inl TypeError)
             (zip xs ds))"

text \<open>
  \<open>df[dst] = df[src] + np.random.uniform(-0.002, 0.002, len(df))\<close>.
  \<open>uniform\<close> is \<open>np.random.uniform\<close> with the generator's state made explicit:
  it is given the state, the two bounds and the number of draws, and returns the draws
  and the next state.
\<close>

definition jitter ::
  "('s \<Rightarrow> real \<Rightarrow> real \<Rightarrow> nat \<Rightarrow> real list \<times> 's) \<Rightarrow> (real \<Rightarrow> fl) \<Rightarrow> string \<Rightarrow> string \<Rightarrow>
   dataframe \<times> 's \<Rightarrow> error + dataframe \<times> 's" where
  "jitter uniform rnd src dst st =
     (case st of (df, s) \<Rightarrow>
       (case getitem df src of
          Inl e \<Rightarrow> Inl e
        | Inr xs \<Rightarrow>
            (case uniform s (- 0.002) 0.002 (length (rows df)) of (ds, s') \<Rightarrow>
              (case series_add rnd xs ds of
                 Inl e \<Rightarrow> Inl e
               | Inr v \<Rightarrow>
                   (case setitem df dst v of
                      Inl e \<Rightarrow> Inl e
                    | Inr df' \<Rightarrow> Inr (df', s'))))))"

definition add_jitter ::
  "('s \<Rightarrow> real \<Rightarrow> real \<Rightarrow> nat \<Rightarrow> real list \<times> 's) \<Rightarrow> (real \<Rightarrow> fl) \<Rightarrow>
   dataframe \<times> 's \<Rightarrow> error + dataframe \<times> 's" where
  "add_jitter uniform rnd st =
     (case jitter uniform rnd ''latitude'' ''lat_jitter'' st of
        Inl e \<Rightarrow> Inl e
      | Inr st1 \<Rightarrow> jitter uniform rnd ''longitude'' ''lon_jitter'' st1)"

section \<open>Clean Stage and Sector (lines 52 and 53)\<close>

text \<open>
  \<open>astype(str)\<close>, on one element of the column.  A \<open>str\<close> is kept.  What becomes of
  any other object depends on the version of pandas, and the repository pins none:
  \<open>py_str\<close> gives the string the library puts in its place, or \<open>None\<close> when the library
  leaves the object as it is.  Before version 3 every object \<open>x\<close> becomes \<open>str(x)\<close>, a
  missing value the string \<open>nan\<close>; from version 3 on a missing value stays missing.
\<close>

definition astype_str :: "(cell \<Rightarrow> string option) \<Rightarrow> cell \<Rightarrow> cell" where
  "astype_str py_str c =
     (case c of
        Text s \<Rightarrow> Text s
      | _ \<Rightarrow> (case py_str c of Some s \<Rightarrow> Text s | None \<Rightarrow> c))"

text \<open>
  \<open>astype(str)\<close> followed by the lambda of lines 52 and 53 on one element: the lambda
  calls \<open>x.split(",")\<close>, which only a \<open>str\<close> has; on a float (a missing value that was
  left as it is) Python raises \<open>AttributeError\<close>.
\<close>

definition parse_tags :: "(cell \<Rightarrow> string option) \<Rightarrow> cell \<Rightarrow> error + cell" where
  "parse_tags py_str c =
     (case astype_str py_str c of
        Text s \<Rightarrow> Inr (Tags (tag_parser s))
      | _ \<Rightarrow> Inl AttributeError)"

definition clean_column ::
  "(cell \<Rightarrow> string option) \<Rightarrow> string \<Rightarrow> dataframe \<Rightarrow> error + dataframe" where
  "clean_column py_str name df =
     (case getitem df name of
        Inl e \<Rightarrow> Inl e
      | Inr xs \<Rightarrow>
          (case traverse (parse_tags py_str) xs of
             Inl e \<Rightarrow> Inl e
           | Inr ys \<Rightarrow> setitem df name ys))"

definition clean_tags :: "(cell \<Rightarrow> string option) \<Rightarrow> dataframe \<Rightarrow> error + dataframe" where
  "clean_tags py_str df =
     (case clean_column py_str ''Stage'' df of
        Inl e \<Rightarrow> Inl e
      | Inr df1 \<Rightarrow> clean_column py_str ''Sector'' df1)"

text \<open>Lines 17 to 53 together: the dataset the sidebar and the filter work on.\<close>

definition load_dataset ::
  "(cell \<Rightarrow> string option) \<Rightarrow> (cell \<Rightarrow> fl) \<Rightarrow> ('s \<Rightarrow> real \<Rightarrow> real \<Rightarrow> nat \<Rightarrow> real list \<times> 's) \<Rightarrow>
   (real \<Rightarrow> fl) \<Rightarrow> 's \<Rightarrow> dataframe option \<Rightarrow> error + dataframe \<times> 's" where
  "load_dataset py_str coerce uniform rnd s file =
     (case loader coerce file of
        Inl e \<Rightarrow> Inl e
      | Inr df \<Rightarrow>
          (case add_jitter uniform rnd (df, s) of
             Inl e \<Rightarrow> Inl e
           | Inr (df1, s1) \<Rightarrow>
               (case clean_tags py_str df1 of
                  Inl e \<Rightarrow> Inl e
                | Inr df2 \<Rightarrow> Inr (df2, s1))))"

section \<open>Sidebar filters (lines 60 to 64)\<close>

text \<open>
  Iterating over a cell, as \<open>for s in sublist\<close> does: a list gives its elements, a
  \<open>str\<close> its characters, a float is not iterable.
\<close>

definition py_iter :: "cell \<Rightarrow> error + string list" where
  "py_iter c =
     (case c of
        Tags ts \<Rightarrow> Inr ts
      | Text s \<Rightarrow> Inr (map (\<lambda>ch. [ch]) s)
      | Num x \<Rightarrow> Inl TypeError)"

text \<open>
  \<open>sorted({s for sublist in df[name] for s in sublist})\<close>: the options of a
  multiselect, which are also its default selection.  Python orders strings by code
  point, lexicographically.
\<close>

definition all_tags :: "dataframe \<Rightarrow> string \<Rightarrow> error + string list" where
  "all_tags df name =
     (case getitem df name of
        Inl e \<Rightarrow> Inl e
      | Inr xs \<Rightarrow>
          (case traverse py_iter xs of
             Inl e \<Rightarrow> Inl e
           | Inr tss \<Rightarrow> Inr (sort (remdups (concat tss)))))"

section \<open>Filter Engine (lines 78 to 85)\<close>

text \<open>\<open>lambda tags: any(s in selected for s in tags)\<close>.\<close>

definition any_selected :: "string list \<Rightarrow> cell \<Rightarrow> error + bool" where
  "any_selected selected c =
     (case py_iter c of
        Inl e \<Rightarrow> Inl e
      | Inr ts \<Rightarrow> Inr (list_ex (\<lambda>s. s \<in> set selected) ts))"

text \<open>\<open>df[name].apply(lambda tags: any(s in selected for s in tags))\<close>.\<close>

definition tag_mask :: "dataframe \<Rightarrow> string \<Rightarrow> string list \<Rightarrow> error + bool list" where
  "tag_mask df name selected =
     (case getitem df name of
        Inl e \<Rightarrow> Inl e
      | Inr xs \<Rightarrow> traverse (any_selected selected) xs)"

text \<open>\<open>df[mask]\<close>: the rows at which the boolean Series holds True.\<close>

definition select_rows :: "dataframe \<Rightarrow> bool list \<Rightarrow> dataframe" where
  "select_rows df keep = df\<lparr>rows := map fst (filter snd (zip (rows df) keep))\<rparr>"

definition warning_text :: string where
  "warning_text = ''Please select at least one Sector and Stage.''"

text \<open>
  The result is the warning shown by \<open>st.warning\<close>, if any, and \<open>filtered_df\<close>;
  the script goes on in both branches.
\<close>

definition filter_engine ::
  "dataframe \<Rightarrow> string list \<Rightarrow> string list \<Rightarrow> error + string option \<times> dataframe" where
  "filter_engine df selected_sectors selected_stages =
     (if selected_sectors = [] \<or> selected_stages = [] then
        Inr (Some warning_text, \<lparr>columns = columns df, rows = []\<rparr>)
      else
        (case tag_mask df ''Sector'' selected_sectors of
           Inl e \<Rightarrow> Inl e
         | Inr m1 \<Rightarrow>
             (case tag_mask df ''Stage'' selected_stages of
                Inl e \<Rightarrow> Inl e
              | Inr m2 \<Rightarrow> Inr (None, select_rows df (map2 (\<and>) m1 m2)))))"

section \<open>Vocabulary of the specification\<close>

text \<open>
  Header normalisation as the specification words it: the header is trimmed; \<open>Name\<close>
  becomes \<open>name\<close>, \<open>Lat\<close> and \<open>Latitude\<close> become \<open>latitude\<close>, \<open>Long\<close> and
  \<open>Longitude\<close> become \<open>longitude\<close>; anything else passes through.
\<close>

definition spec_header :: "string \<Rightarrow> string" where
  "spec_header h =
     (let t = str_strip h in
      if t = ''Name'' then ''name''
      else if t = ''Lat'' \<or> t = ''Latitude'' then ''latitude''
      else if t = ''Long'' \<or> t = ''Longitude'' then ''longitude''
      else t)"

text \<open>
  Trimming, as a relation: \<open>t\<close> is what is left of \<open>h\<close> once its leading and its
  trailing whitespace are taken away, so \<open>t\<close> neither starts nor ends with whitespace.
  The renaming of a trimmed header is the table of the specification.
\<close>

definition is_trim_of :: "string \<Rightarrow> string \<Rightarrow> bool" where
  "is_trim_of h t \<longleftrightarrow>
     (\<exists>pre post. h = pre @ t @ post \<and> list_all isspace pre \<and> list_all isspace post) \<and>
     (t \<noteq> [] \<longrightarrow> \<not> isspace (hd t) \<and> \<not> isspace (last t))"

definition spec_rename :: "string \<Rightarrow> string" where
  "spec_rename t =
     (if t = ''Name'' then ''name''
      else if t = ''Lat'' \<or> t = ''Latitude'' then ''latitude''
      else if t = ''Long'' \<or> t = ''Longitude'' then ''longitude''
      else t)"

text \<open>
  The value a record holds under a label: defined when exactly one column carries the
  label.  \<open>cells_at\<close> lists the values under every column that carries it.
\<close>

definition cell_at :: "dataframe \<Rightarrow> string \<Rightarrow> cell list \<Rightarrow> cell option" where
  "cell_at df name r =
     (case positions name (columns df) of
        [i] \<Rightarrow> if i < length r then Some (r ! i) else None
      | _ \<Rightarrow> None)"

definition cells_at :: "dataframe \<Rightarrow> string \<Rightarrow> cell list \<Rightarrow> cell list" where
  "cells_at df name r = map (\<lambda>p. r ! p) (positions name (columns df))"

text \<open>The parsed tag list of a record under \<open>Sector\<close> or \<open>Stage\<close>.\<close>

definition tags_at :: "dataframe \<Rightarrow> string \<Rightarrow> cell list \<Rightarrow> string list" where
  "tags_at df name r = (case cell_at df name r of Some (Tags ts) \<Rightarrow> ts | _ \<Rightarrow> [])"

text \<open>The table without the columns that carry one of the given labels.\<close>

definition drop_labels :: "string list \<Rightarrow> dataframe \<Rightarrow> dataframe" where
  "drop_labels labels df =
     \<lparr>columns = filter (\<lambda>c. c \<notin> set labels) (columns df),
      rows = map (\<lambda>r. map (\<lambda>p. r ! p)
                 (filter (\<lambda>p. columns df ! p \<notin> set labels) [0..<length (columns df)]))
               (rows df)\<rparr>"

text \<open>Two tables that differ at most under the given labels.\<close>

definition agree_off :: "string list \<Rightarrow> dataframe \<Rightarrow> dataframe \<Rightarrow> bool" where
  "agree_off labels d e \<longleftrightarrow>
     columns d = columns e \<and> rectangular d \<and> rectangular e \<and>
     list_all2 (\<lambda>r r'. \<forall>p<length (columns d). columns d ! p \<notin> set labels \<longrightarrow> r ! p = r' ! p)
       (rows d) (rows e)"

text \<open>The comparison \<open>x <= y\<close> of two floats: false as soon as one of them is NaN.\<close>

fun fl_le :: "fl \<Rightarrow> fl \<Rightarrow> bool" where
  "fl_le NaN y = False"
| "fl_le x NaN = False"
| "fl_le NInf y = True"
| "fl_le x PInf = True"
| "fl_le (Fin a) (Fin b) = (a \<le> b)"
| "fl_le x y = False"

section \<open>Example data\<close>

text \<open>
  A table as \<open>read_csv\<close> returns it: headers with stray blanks, a row without latitude,
  a row whose sector field holds only a comma.
\<close>

definition vc_csv :: dataframe where
  "vc_csv =
     \<lparr>columns = [''Name'', '' Lat'', ''Long '', ''Sector'', ''Stage''],
      rows =
        [[Text ''Acme VC'', Num (Fin 37.77), Num (Fin (- 122.41)),
            Text ''Fintech, SaaS'', Text ''Seed''],
         [Text ''Beta Capital'', Num (Fin 40.71), Num (Fin (- 74)),
            Text ''Healthcare'', Text ''Series A''],
         [Text ''Gamma Partners'', Num (Fin 34.05), Num (Fin (- 118.24)),
            Text ''Fintech,SaaS'', Text ''Series A''],
         [Text ''Nowhere Fund'', Num NaN, Num (Fin 1), Text ''SaaS'', Text ''Seed''],
         [Text ''Untagged'', Num (Fin 41.88), Num (Fin (- 87.63)), Text '' , '', Text ''Seed'']]\<rparr>"

text \<open>A table with no column for the longitude.\<close>

definition no_longitude_csv :: dataframe where
  "no_longitude_csv =
     \<lparr>columns = [''Name'', ''Lat'', ''Sector'', ''Stage''],
      rows = [[Text ''Acme VC'', Num (Fin 37.77), Text ''Fintech, SaaS'', Text ''Seed'']]\<rparr>"

text \<open>A table whose first row has an infinite latitude.\<close>

definition inf_csv :: dataframe where
  "inf_csv =
     \<lparr>columns = [''Name'', ''Lat'', ''Long''],
      rows = [[Text ''Far Away Capital'', Num PInf, Num (Fin 0)],
              [Text ''Acme VC'', Num (Fin 37.77), Num (Fin (- 122.41))]]\<rparr>"


definition padded_csv :: dataframe where
  "padded_csv =
     \<lparr>columns = [''  Name '', CHR 0x09 # ''Lat'', ''Longitude '', '' Fund  Size '',
                 ''Latitudes'', ''name '', ''   ''],
      rows = [[Text ''Acme VC'', Num (Fin 37.77), Num (Fin (- 122.41)), Text ''10'',
               Text ''n/a'', Text ''Acme'', Text ''x'']]\<rparr>"

text \<open>
  Stand-ins for the library: a conversion that finds no number in any text, an
  \<open>astype(str)\<close> that prints \<open>nan\<close> for every object (pandas before version 3) and one
  that leaves every object as it is (a missing value under pandas 3), and a generator
  whose state counts the draws made so far and whose draws step through the interval in
  quarters.
\<close>

definition no_number :: "cell \<Rightarrow> fl" where
  "no_number c = NaN"

definition nan_str :: "cell \<Rightarrow> string option" where
  "nan_str c = Some ''nan''"


definition stepping_uniform :: "nat \<Rightarrow> real \<Rightarrow> real \<Rightarrow> nat \<Rightarrow> real list \<times> nat" where
  "stepping_uniform s lo hi n =
     (map (\<lambda>i. lo + (hi - lo) * (real ((s + i) mod 4) / 4)) [0..<n], s + n)"

definition exact :: "real \<Rightarrow> fl" where
  "exact x = Fin x"

text \<open>
  The dataset that lines 17 to 53 make of \<open>vc_csv\<close> with these stand-ins: the row
  without latitude is gone, the coordinates are jittered by -0.002, -0.001, 0 and 0.001.
\<close>

definition vc_loaded :: dataframe where
  "vc_loaded =
     \<lparr>columns = [''name'', ''latitude'', ''longitude'', ''Sector'', ''Stage'',
                 ''lat_jitter'', ''lon_jitter''],
      rows =
        [[Text ''Acme VC'', Num (Fin 37.77), Num (Fin (- 122.41)),
            Tags [''Fintech'', ''SaaS''], Tags [''Seed''],
            Num (Fin 37.768), Num (Fin (- 122.412))],
         [Text ''Beta Capital'', Num (Fin 40.71), Num (Fin (- 74)),
            Tags [''Healthcare''], Tags [''Series A''],
            Num (Fin 40.709), Num (Fin (- 74.001))],
         [Text ''Gamma Partners'', Num (Fin 34.05), Num (Fin (- 118.24)),
            Tags [''Fintech'', ''SaaS''], Tags [''Series A''],
            Num (Fin 34.05), Num (Fin (- 118.24))],
         [Text ''Untagged'', Num (Fin 41.88), Num (Fin (- 87.63)),
            Tags [], Tags [''Seed''],
            Num (Fin 41.881), Num (Fin (- 87.629))]]\<rparr>"

text \<open>
  The same table loaded a second time, the generator started at 2 instead of 0: the
  offsets are 0, 0.001, -0.002 and -0.001.
\<close>

definition vc_reloaded :: dataframe where
  "vc_reloaded =
     \<lparr>columns = [''name'', ''latitude'', ''longitude'', ''Sector'', ''Stage'',
                 ''lat_jitter'', ''lon_jitter''],
      rows =
        [[Text ''Acme VC'', Num (Fin 37.77), Num (Fin (- 122.41)),
            Tags [''Fintech'', ''SaaS''], Tags [''Seed''],
            Num (Fin 37.77), Num (Fin (- 122.41))],
         [Text ''Beta Capital'', Num (Fin 40.71), Num (Fin (- 74)),
            Tags [''Healthcare''], Tags [''Series A''],
            Num (Fin 40.711), Num (Fin (- 73.999))],
         [Text ''Gamma Partners'', Num (Fin 34.05), Num (Fin (- 118.24)),
            Tags [''Fintech'', ''SaaS''], Tags [''Series A''],
            Num (Fin 34.048), Num (Fin (- 118.242))],
         [Text ''Untagged'', Num (Fin 41.88), Num (Fin (- 87.63)),
            Tags [], Tags [''Seed''],
            Num (Fin 41.879), Num (Fin (- 87.631))]]\<rparr>"

section \<open>Facts about the string functions\<close>

lemma split_scan_nonempty: "split_scan sep cur s \<noteq> []"
  by (induction s arbitrary: cur) auto

lemma str_join_Cons: "ps \<noteq> [] \<Longrightarrow> str_join sep (p # ps) = p @ sep @ str_join sep ps"
  by (cases ps) auto

text \<open>Joining the pieces with the separator gives the text back.\<close>

lemma split_scan_join: "str_join [sep] (split_scan sep cur s) = rev cur @ s"
  by (induction s arbitrary: cur) (auto simp: str_join_Cons split_scan_nonempty)

lemma str_split_join: "str_join [sep] (str_split sep s) = s"
  by (simp add: str_split_def split_scan_join)

text \<open>No piece contains the separator.\<close>

lemma split_scan_no_sep:
  "sep \<notin> set cur \<Longrightarrow> p \<in> set (split_scan sep cur s) \<Longrightarrow> sep \<notin> set p"
proof (induction s arbitrary: cur)
  case Nil
  then show ?case by auto
next
  case (Cons c cs)
  show ?case
  proof (cases "c = sep")
    case True
    with Cons.prems have "p = rev cur \<or> p \<in> set (split_scan sep [] cs)" by simp
    then show ?thesis using Cons.IH [of "[]"] Cons.prems(1) by auto
  next
    case False
    with Cons.prems have "p \<in> set (split_scan sep (c # cur) cs)" by simp
    then show ?thesis using Cons.IH [of "c # cur"] Cons.prems(1) False by auto
  qed
qed

lemma str_split_no_sep: "p \<in> set (str_split sep s) \<Longrightarrow> sep \<notin> set p"
  unfolding str_split_def by (rule split_scan_no_sep [of sep "[]"]) simp_all



lemma comprehension_filter_map:
  "[f s. s \<leftarrow> xs, P (f s)] = filter P (map f xs)"
  by (induction xs) auto


section \<open>Tag Parser: the claims\<close>

text \<open>\<open>str_strip\<close> is trimming: it returns the one string that is the trim of its argument.\<close>

lemma str_strip_is_trim: "is_trim_of h (str_strip h)"
proof -
  define m where "m = dropWhile isspace h"
  define t where "t = rev (dropWhile isspace (rev m))"
  define post where "post = rev (takeWhile isspace (rev m))"
  have st: "str_strip h = t" by (simp add: str_strip_def t_def m_def)
  have "rev (takeWhile isspace (rev m) @ dropWhile isspace (rev m)) = m"
    by (simp only: takeWhile_dropWhile_id rev_rev_ident)
  then have "rev (dropWhile isspace (rev m)) @ rev (takeWhile isspace (rev m)) = m"
    by (simp only: rev_append)
  then have m: "m = t @ post" by (simp only: t_def post_def)
  have "takeWhile isspace h @ m = h"
    unfolding m_def by (rule takeWhile_dropWhile_id)
  then have h: "h = takeWhile isspace h @ t @ post"
    unfolding m by (rule sym)
  have pre: "list_all isspace (takeWhile isspace h)"
    by (auto simp: list_all_iff dest: set_takeWhileD)
  have post: "list_all isspace post"
    by (auto simp: post_def list_all_iff dest: set_takeWhileD)
  have ends: "\<not> isspace (hd t) \<and> \<not> isspace (last t)" if ne: "t \<noteq> []"
  proof
    have "m \<noteq> []" using m ne by simp
    then have "\<not> isspace (hd m)" unfolding m_def by (rule hd_dropWhile)
    then show "\<not> isspace (hd t)" using m ne by simp
    have "dropWhile isspace (rev m) \<noteq> []" using ne by (simp add: t_def)
    then have "\<not> isspace (hd (dropWhile isspace (rev m)))" by (rule hd_dropWhile)
    then show "\<not> isspace (last t)" by (simp add: t_def last_rev)
  qed
  show ?thesis
    unfolding is_trim_of_def st using h pre post ends by blast
qed

lemma str_strip_of_trim:
  assumes "is_trim_of h t"
  shows "str_strip h = t"
proof -
  from assms obtain pre post where
    h: "h = pre @ t @ post" and pre: "list_all isspace pre" and post: "list_all isspace post"
    and ends: "t \<noteq> [] \<longrightarrow> \<not> isspace (hd t) \<and> \<not> isspace (last t)"
    unfolding is_trim_of_def by blast
  have d1: "dropWhile isspace (pre @ t @ post) = dropWhile isspace (t @ post)"
    using pre by (intro dropWhile_append2) (simp add: list_all_iff)
  show ?thesis
  proof (cases "t = []")
    case True
    have "set h = set pre \<union> set post"
      by (subst h) (simp add: True)
    then have "\<forall>x\<in>set h. isspace x"
      using pre post by (simp add: list_all_iff ball_Un)
    then have e: "dropWhile isspace h = []" by simp
    show ?thesis unfolding str_strip_def e using True by simp
  next
    case False
    then obtain c cs where t: "t = c # cs" by (cases t) auto
    have "\<not> isspace c" using ends t by simp
    then have d2: "dropWhile isspace h = t @ post" using h d1 t by simp
    have "dropWhile isspace (rev post @ rev t) = dropWhile isspace (rev t)"
      using post by (intro dropWhile_append2) (simp add: list_all_iff)
    moreover have "dropWhile isspace (rev t) = rev t"
    proof -
      have "rev t \<noteq> []" using False by simp
      moreover have "\<not> isspace (hd (rev t))" using ends False by (simp add: hd_rev)
      ultimately show ?thesis by (cases "rev t") auto
    qed
    ultimately show ?thesis by (simp add: str_strip_def d2)
  qed
qed

text \<open>
  C3.  For every raw string the Tag Parser returns the pieces obtained by splitting on
  the comma, trimming each piece and discarding the pieces that are empty after trimming,
  in their order and with their duplicates.  In particular
  \<open>"Seed, Series A,  Series A"\<close> gives \<open>["Seed", "Series A", "Series A"]\<close>, and the empty
  string gives the empty list.
\<close>

theorem tag_parser_splits_trims_discards:
  "tag_parser x = spec_tag_parser x \<and>
   tag_parser ''Seed, Series A,  Series A'' = [''Seed'', ''Series A'', ''Series A''] \<and>
   tag_parser [] = []"
proof -
  have "tag_parser x = spec_tag_parser x"
    unfolding tag_parser_def spec_tag_parser_def by (rule comprehension_filter_map)
  moreover have
    "tag_parser ''Seed, Series A,  Series A'' = [''Seed'', ''Series A'', ''Series A'']"
    by (simp add: tag_parser_def str_split_def str_strip_def isspace_def)
  moreover have "tag_parser [] = []"
    by (simp add: tag_parser_def str_split_def str_strip_def)
  ultimately show ?thesis by simp
qed



section \<open>Facts about tables\<close>

lemma set_positions: "set (positions name cols) = {i. i < length cols \<and> cols ! i = name}"
  by (auto simp: positions_def)

lemma positions_Nil_iff: "positions name cols = [] \<longleftrightarrow> name \<notin> set cols"
proof -
  have "positions name cols = [] \<longleftrightarrow> set (positions name cols) = {}" by simp
  also have "\<dots> \<longleftrightarrow> name \<notin> set cols"
    unfolding set_positions by (auto simp: in_set_conv_nth)
  finally show ?thesis .
qed

lemma positions_single:
  assumes "positions name cols = [i]"
  shows "i < length cols" and "cols ! i = name"
    and "\<And>p. p < length cols \<Longrightarrow> cols ! p = name \<Longrightarrow> p = i"
proof -
  have s: "{p. p < length cols \<and> cols ! p = name} = {i}"
    using set_positions [of name cols] assms by simp
  from s show "i < length cols" by blast
  from s show "cols ! i = name" by blast
  fix p assume "p < length cols" "cols ! p = name"
  with s show "p = i" by blast
qed

lemma overwrite_single:
  assumes "positions name cols = [i]" and "length r = length cols"
  shows "map2 (\<lambda>c x. if c = name then v else x) cols r = r[i := v]"
proof (rule nth_equalityI)
  show "length (map2 (\<lambda>c x. if c = name then v else x) cols r) = length (r[i := v])"
    using assms(2) by simp
next
  fix p assume "p < length (map2 (\<lambda>c x. if c = name then v else x) cols r)"
  then have p: "p < length cols" "p < length r" by simp_all
  have "cols ! p = name \<longleftrightarrow> p = i"
    using positions_single(2,3) [OF assms(1)] p(1) by blast
  then show "map2 (\<lambda>c x. if c = name then v else x) cols r ! p = r[i := v] ! p"
    using p by (simp add: nth_list_update)
qed

lemma zip_map_same: "zip xs (map f xs) = map (\<lambda>x. (x, f x)) xs"
  by (induction xs) auto

lemma rectangularD: "rectangular df \<Longrightarrow> r \<in> set (rows df) \<Longrightarrow> length r = length (columns df)"
  by (simp add: rectangular_def list_all_iff)

lemma update_column:
  assumes "rectangular df" and "positions name (columns df) = [i]"
  shows "(case getitem df name of Inl e \<Rightarrow> Inl e | Inr xs \<Rightarrow> setitem df name (map f xs))
           = Inr (df\<lparr>rows := map (\<lambda>r. r[i := f (r ! i)]) (rows df)\<rparr>)"
proof -
  have mem: "name \<in> set (columns df)"
    using positions_Nil_iff [of name "columns df"] assms(2) by auto
  have "map2 (\<lambda>r v. map2 (\<lambda>c x. if c = name then v else x) (columns df) r) (rows df)
          (map (\<lambda>r. f (r ! i)) (rows df))
        = map (\<lambda>r. r[i := f (r ! i)]) (rows df)"
  proof -
    have "r[i := f (r ! i)] = map2 (\<lambda>c x. if c = name then f (r ! i) else x) (columns df) r"
      if "r \<in> set (rows df)" for r
      using overwrite_single [OF assms(2) rectangularD [OF assms(1) that]] by simp
    then show ?thesis
      by (simp add: zip_map_same cong: map_cong)
  qed
  then show ?thesis
    using mem assms(2) by (simp add: getitem_def setitem_def comp_def)
qed

lemma getitem_Inr:
  assumes "getitem df name = Inr xs"
  obtains i where "positions name (columns df) = [i]" and "xs = map (\<lambda>r. r ! i) (rows df)"
  using assms by (auto simp: getitem_def split: list.splits)

lemma update_column_Inr:
  assumes "rectangular df"
    and "(case getitem df name of Inl e \<Rightarrow> Inl e | Inr xs \<Rightarrow> setitem df name (map f xs)) = Inr df'"
  obtains i where "positions name (columns df) = [i]"
    and "df' = df\<lparr>rows := map (\<lambda>r. r[i := f (r ! i)]) (rows df)\<rparr>"
proof (cases "getitem df name")
  case (Inl e)
  with assms(2) show ?thesis by simp
next
  case (Inr xs)
  then obtain i where i: "positions name (columns df) = [i]" by (rule getitem_Inr)
  from update_column [OF assms(1) i, of f] assms(2)
  have "df' = df\<lparr>rows := map (\<lambda>r. r[i := f (r ! i)]) (rows df)\<rparr>" by simp
  with i show ?thesis by (rule that)
qed

lemma rectangular_update:
  "rectangular df \<Longrightarrow> rectangular (df\<lparr>rows := map (\<lambda>r. r[i := f r]) (rows df)\<rparr>)"
  by (simp add: rectangular_def list_all_iff)

lemma pos_iff:
  assumes "positions name cols = [i]" and "p < length cols"
  shows "cols ! p = name \<longleftrightarrow> p = i"
  using positions_single(2,3) [OF assms(1)] assms(2) by blast

lemma positions_append_other:
  assumes "other \<noteq> name"
  shows "positions other (cols @ [name]) = positions other cols"
proof -
  have "filter (\<lambda>i. (cols @ [name]) ! i = other) [0..<length cols]
          = filter (\<lambda>i. cols ! i = other) [0..<length cols]"
    by (rule filter_cong) (simp_all add: nth_append)
  then show ?thesis using assms by (simp add: positions_def)
qed

lemma positions_append_same:
  "name \<notin> set cols \<Longrightarrow> positions name (cols @ [name]) = [length cols]"
proof -
  assume "name \<notin> set cols"
  then have "filter (\<lambda>i. (cols @ [name]) ! i = name) [0..<length cols] = []"
    by (auto simp: filter_empty_conv nth_append)
  then show ?thesis by (simp add: positions_def)
qed

lemma traverse_Inr:
  "traverse f xs = Inr ys \<Longrightarrow> list_all2 (\<lambda>x y. f x = Inr y) xs ys"
  by (induction xs arbitrary: ys) (auto split: sum.splits)

lemma traverse_Inr_map:
  assumes "traverse f xs = Inr ys"
  shows "ys = map (\<lambda>x. projr (f x)) xs" and "\<forall>x\<in>set xs. \<exists>y. f x = Inr y"
  using assms by (induction xs arbitrary: ys) (auto split: sum.splits)

lemma traverse_total:
  "(\<And>x. x \<in> set xs \<Longrightarrow> f x = Inr (g x)) \<Longrightarrow> traverse f xs = Inr (map g xs)"
  by (induction xs) auto

lemma setitem_Inr:
  assumes "setitem df name vs = Inr df'" and "rectangular df"
  shows "length vs = length (rows df)"
    and "length (rows df') = length (rows df)"
    and "rectangular df'"
    and "columns df' = (if name \<in> set (columns df) then columns df else columns df @ [name])"
    and "k < length (rows df) \<Longrightarrow> p < length (columns df') \<Longrightarrow>
           rows df' ! k ! p = (if columns df' ! p = name then vs ! k else rows df ! k ! p)"
proof -
  show len: "length vs = length (rows df)"
    using assms(1) by (auto simp: setitem_def split: if_splits)
  show "length (rows df') = length (rows df)"
    using assms(1) len by (auto simp: setitem_def split: if_splits)
  show "columns df' = (if name \<in> set (columns df) then columns df else columns df @ [name])"
    using assms(1) by (auto simp: setitem_def split: if_splits)
  show "rectangular df'"
  proof (cases "name \<in> set (columns df)")
    case True
    then have "df' = df\<lparr>rows :=
        map2 (\<lambda>r v. map2 (\<lambda>c x. if c = name then v else x) (columns df) r) (rows df) vs\<rparr>"
      using assms(1) len by (simp add: setitem_def)
    then show ?thesis
      using rectangularD [OF assms(2)]
      by (auto simp: rectangular_def list_all_iff dest: set_zip_leftD)
  next
    case False
    then have "df' = df\<lparr>columns := columns df @ [name],
        rows := map2 (\<lambda>r v. r @ [v]) (rows df) vs\<rparr>"
      using assms(1) len by (simp add: setitem_def)
    then show ?thesis
      using rectangularD [OF assms(2)]
      by (auto simp: rectangular_def list_all_iff dest: set_zip_leftD)
  qed
  assume k: "k < length (rows df)" and p: "p < length (columns df')"
  have r: "length (rows df ! k) = length (columns df)"
    using rectangularD [OF assms(2)] k by simp
  show "rows df' ! k ! p = (if columns df' ! p = name then vs ! k else rows df ! k ! p)"
  proof (cases "name \<in> set (columns df)")
    case True
    then have eq: "df' = df\<lparr>rows :=
        map2 (\<lambda>r v. map2 (\<lambda>c x. if c = name then v else x) (columns df) r) (rows df) vs\<rparr>"
      using assms(1) len by (simp add: setitem_def)
    have "p < length (columns df)" using p eq by simp
    then show ?thesis using eq k len r by simp
  next
    case False
    then have eq: "df' = df\<lparr>columns := columns df @ [name],
        rows := map2 (\<lambda>r v. r @ [v]) (rows df) vs\<rparr>"
      using assms(1) len by (simp add: setitem_def)
    have "p < Suc (length (columns df))" using p eq by simp
    then consider "p < length (columns df)" | "p = length (columns df)" by linarith
    then show ?thesis
    proof cases
      case 1
      then have "columns df ! p \<noteq> name" using False nth_mem by metis
      then show ?thesis using eq k len r 1 by (simp add: nth_append)
    next
      case 2
      then show ?thesis using eq k len r by (simp add: nth_append)
    qed
  qed
qed

text \<open>After an assignment, every column that carries the label holds the assigned values.\<close>

lemma setitem_target:
  assumes "setitem df name vs = Inr df'" and "rectangular df"
    and "p \<in> set (positions name (columns df'))"
  shows "map (\<lambda>r. r ! p) (rows df') = vs"
proof (rule nth_equalityI)
  show "length (map (\<lambda>r. r ! p) (rows df')) = length vs"
    using setitem_Inr(1,2) [OF assms(1,2)] by simp
next
  fix k assume "k < length (map (\<lambda>r. r ! p) (rows df'))"
  then have k: "k < length (rows df)" "k < length (rows df')"
    using setitem_Inr(2) [OF assms(1,2)] by simp_all
  have p: "p < length (columns df')" "columns df' ! p = name"
    using assms(3) by (simp_all add: set_positions)
  show "map (\<lambda>r. r ! p) (rows df') ! k = vs ! k"
    using setitem_Inr(5) [OF assms(1,2) k(1) p(1)] k(2) p(2) by simp
qed

text \<open>The columns under any other label are where they were and hold what they held.\<close>

lemma setitem_positions_other:
  assumes "setitem df name vs = Inr df'" and "rectangular df" and "other \<noteq> name"
  shows "positions other (columns df') = positions other (columns df)"
  using setitem_Inr(4) [OF assms(1,2)] assms(3) by (simp add: positions_append_other)

lemma setitem_frame:
  assumes "setitem df name vs = Inr df'" and "rectangular df" and "other \<noteq> name"
    and "p \<in> set (positions other (columns df))"
  shows "map (\<lambda>r. r ! p) (rows df') = map (\<lambda>r. r ! p) (rows df)"
proof (rule nth_equalityI)
  show "length (map (\<lambda>r. r ! p) (rows df')) = length (map (\<lambda>r. r ! p) (rows df))"
    using setitem_Inr(2) [OF assms(1,2)] by simp
next
  fix k assume "k < length (map (\<lambda>r. r ! p) (rows df'))"
  then have k: "k < length (rows df)" "k < length (rows df')"
    using setitem_Inr(2) [OF assms(1,2)] by simp_all
  have "p \<in> set (positions other (columns df'))"
    using assms(4) setitem_positions_other [OF assms(1,2,3)] by simp
  then have p: "p < length (columns df')" "columns df' ! p = other"
    by (simp_all add: set_positions)
  show "map (\<lambda>r. r ! p) (rows df') ! k = map (\<lambda>r. r ! p) (rows df) ! k"
    using setitem_Inr(5) [OF assms(1,2) k(1) p(1)] k p(2) assms(3) by simp
qed

lemma setitem_label_present:
  assumes "setitem df name vs = Inr df'" and "rectangular df"
  shows "positions name (columns df') \<noteq> []"
  using setitem_Inr(4) [OF assms] by (auto simp: positions_Nil_iff)

section \<open>Dataset Loader: header normalisation and validation\<close>

lemma rename_aliases:
  "(case map_of aliases (str_strip h) of Some c' \<Rightarrow> c' | None \<Rightarrow> str_strip h) = spec_header h"
  by (simp add: aliases_def spec_header_def Let_def)

lemma normalize_columns_eq:
  "normalize_columns df = df\<lparr>columns := map spec_header (columns df)\<rparr>"
  by (simp add: normalize_columns_def rename_def strip_columns_def comp_def rename_aliases)

text \<open>
  C8.  The loader trims every column header and then renames exactly \<open>Name\<close> to
  \<open>name\<close>, \<open>Lat\<close> and \<open>Latitude\<close> to \<open>latitude\<close>, \<open>Long\<close> and \<open>Longitude\<close> to
  \<open>longitude\<close>; every other header passes through as trimmed, and the rows are not
  touched.  Every header has a trim, and the new header is the renaming of whatever is a
  trim of the old one.  In the example the headers are padded with blanks and a tab.
\<close>

theorem normalize_columns_trims_and_renames:
  "normalize_columns df = df\<lparr>columns := map spec_header (columns df)\<rparr> \<and>
   (\<forall>h. \<exists>t. is_trim_of h t) \<and>
   (\<forall>h t. is_trim_of h t \<longrightarrow> spec_header h = spec_rename t) \<and>
   normalize_columns padded_csv =
     padded_csv\<lparr>columns := [''name'', ''latitude'', ''longitude'', ''Fund  Size'',
                            ''Latitudes'', ''name'', []]\<rparr>"
proof (intro conjI allI impI)
  show "normalize_columns df = df\<lparr>columns := map spec_header (columns df)\<rparr>"
    by (rule normalize_columns_eq)
  show "\<exists>t. is_trim_of h t" for h
    using str_strip_is_trim by blast
  show "spec_header h = spec_rename t" if "is_trim_of h t" for h t
    using str_strip_of_trim [OF that] by (simp add: spec_header_def spec_rename_def Let_def)
  show "normalize_columns padded_csv =
     padded_csv\<lparr>columns := [''name'', ''latitude'', ''longitude'', ''Fund  Size'',
                            ''Latitudes'', ''name'', []]\<rparr>"
    by (simp add: normalize_columns_def rename_def strip_columns_def aliases_def str_strip_def
        isspace_def padded_csv_def)
qed

theorem normalize_columns_trims_and_renames_witness:
  "is_trim_of ''  Name '' ''Name'' \<and>
   spec_header ''  Name '' = spec_rename ''Name'' \<and>
   spec_rename ''Name'' = ''name'' \<and>
   columns (normalize_columns padded_csv) =
     [''name'', ''latitude'', ''longitude'', ''Fund  Size'', ''Latitudes'', ''name'', []]"
proof -
  have "''  Name '' = ''  '' @ ''Name'' @ '' ''" by simp
  moreover have "list_all isspace ''  ''" and "list_all isspace '' ''"
    by (simp_all add: isspace_def)
  moreover have "\<not> isspace (hd ''Name'') \<and> \<not> isspace (last ''Name'')"
    by (simp add: isspace_def)
  ultimately have h: "is_trim_of ''  Name '' ''Name''"
    unfolding is_trim_of_def by blast
  note t = normalize_columns_trims_and_renames [of padded_csv]
  have r: "spec_header ''  Name '' = spec_rename ''Name''"
    using t h by blast
  have c: "columns (normalize_columns padded_csv) =
     [''name'', ''latitude'', ''longitude'', ''Fund  Size'', ''Latitudes'', ''name'', []]"
    using t [THEN conjunct2, THEN conjunct2, THEN conjunct2] by simp
  show ?thesis
    using h r c by (simp add: spec_rename_def)
qed

lemma spec_header_latitude:
  "spec_header h = ''latitude'' \<longleftrightarrow> str_strip h \<in> {''latitude'', ''Lat'', ''Latitude''}"
  by (auto simp: spec_header_def Let_def)

lemma spec_header_longitude:
  "spec_header h = ''longitude'' \<longleftrightarrow> str_strip h \<in> {''longitude'', ''Long'', ''Longitude''}"
  by (auto simp: spec_header_def Let_def)

lemma latitude_resolvable:
  "''latitude'' \<in> set (map spec_header cols) \<longleftrightarrow>
     (\<exists>h\<in>set cols. str_strip h \<in> {''latitude'', ''Lat'', ''Latitude''})"
  unfolding set_map image_iff spec_header_latitude [symmetric]
  by (intro bex_cong refl) (rule eq_commute)

lemma longitude_resolvable:
  "''longitude'' \<in> set (map spec_header cols) \<longleftrightarrow>
     (\<exists>h\<in>set cols. str_strip h \<in> {''longitude'', ''Long'', ''Longitude''})"
  unfolding set_map image_iff spec_header_longitude [symmetric]
  by (intro bex_cong refl) (rule eq_commute)

lemma loader_SchemaError:
  assumes "''latitude'' \<notin> set (columns (normalize_columns df0)) \<or>
           ''longitude'' \<notin> set (columns (normalize_columns df0))"
  shows "loader coerce (Some df0) = Inl SchemaError"
  using assms by (auto simp: loader_def Let_def)

text \<open>
  C6.  When no header of the input table resolves to \<open>latitude\<close> (trimmed, it is none of
  \<open>latitude\<close>, \<open>Lat\<close>, \<open>Latitude\<close>), or none resolves to \<open>longitude\<close>, the loader stops
  with \<open>SchemaError\<close>, and so does the whole load: no dataset is produced.
\<close>

theorem missing_coordinate_column_is_schema_error:
  assumes "(\<forall>h\<in>set (columns df0). str_strip h \<notin> {''latitude'', ''Lat'', ''Latitude''}) \<or>
           (\<forall>h\<in>set (columns df0). str_strip h \<notin> {''longitude'', ''Long'', ''Longitude''})"
  shows "loader coerce (Some df0) = Inl SchemaError \<and>
         load_dataset py_str coerce uniform rnd s (Some df0) = Inl SchemaError"
proof -
  have cols: "columns (normalize_columns df0) = map spec_header (columns df0)"
    by (simp add: normalize_columns_eq)
  have "''latitude'' \<notin> set (columns (normalize_columns df0)) \<or>
        ''longitude'' \<notin> set (columns (normalize_columns df0))"
    using assms by (simp only: cols latitude_resolvable longitude_resolvable) blast
  then have "loader coerce (Some df0) = Inl SchemaError"
    by (rule loader_SchemaError)
  then show ?thesis by (simp add: load_dataset_def)
qed

theorem missing_coordinate_column_is_schema_error_witness:
  "((\<forall>h\<in>set (columns no_longitude_csv). str_strip h \<notin> {''latitude'', ''Lat'', ''Latitude''}) \<or>
    (\<forall>h\<in>set (columns no_longitude_csv).
       str_strip h \<notin> {''longitude'', ''Long'', ''Longitude''})) \<and>
   loader no_number (Some no_longitude_csv) = Inl SchemaError \<and>
   load_dataset nan_str no_number stepping_uniform exact 0 (Some no_longitude_csv) =
     Inl SchemaError"
proof -
  have h: "(\<forall>h\<in>set (columns no_longitude_csv).
              str_strip h \<notin> {''latitude'', ''Lat'', ''Latitude''}) \<or>
           (\<forall>h\<in>set (columns no_longitude_csv).
              str_strip h \<notin> {''longitude'', ''Long'', ''Longitude''})"
    by (simp add: no_longitude_csv_def str_strip_def isspace_def)
  show ?thesis
    using h missing_coordinate_column_is_schema_error
      [OF h, of no_number nan_str stepping_uniform exact 0]
    by simp
qed

section \<open>Dataset Loader: the rows that survive\<close>

lemma rectangular_normalize: "rectangular df0 \<Longrightarrow> rectangular (normalize_columns df0)"
  by (simp add: normalize_columns_eq rectangular_def)

lemma to_numeric_Num: "\<exists>x. to_numeric coerce c = Num x"
  by (cases c) (simp_all add: to_numeric_def)

lemma force_numeric_Inr:
  assumes "rectangular df" and "force_numeric coerce name df = Inr df'"
  obtains i where "positions name (columns df) = [i]"
    and "df' = df\<lparr>rows := map (\<lambda>r. r[i := to_numeric coerce (r ! i)]) (rows df)\<rparr>"
  using update_column_Inr [OF assms(1), of name "to_numeric coerce" df'] assms(2)
  unfolding force_numeric_def by blast

lemma dropna_keeps:
  assumes "positions a cols = [i]" and "positions b cols = [j]" and "length r = length cols"
  shows "list_all (\<lambda>(c, x). c \<in> set [a, b] \<longrightarrow> \<not> isna x) (zip cols r)
           \<longleftrightarrow> \<not> isna (r ! i) \<and> \<not> isna (r ! j)"
proof -
  have "list_all (\<lambda>(c, x). c \<in> set [a, b] \<longrightarrow> \<not> isna x) (zip cols r)
          \<longleftrightarrow> (\<forall>p<length cols. (cols ! p = a \<or> cols ! p = b) \<longrightarrow> \<not> isna (r ! p))"
    using assms(3) by (auto simp: list_all_length)
  also have "\<dots> \<longleftrightarrow> \<not> isna (r ! i) \<and> \<not> isna (r ! j)"
    using pos_iff [OF assms(1)] pos_iff [OF assms(2)]
      positions_single(1) [OF assms(1)] positions_single(1) [OF assms(2)]
    by blast
  finally show ?thesis .
qed

text \<open>What a successful run of the loader returns, in one expression.\<close>

lemma loader_Inr:
  assumes "rectangular df0" and "loader coerce (Some df0) = Inr df"
  obtains i j where
    "positions ''latitude'' (map spec_header (columns df0)) = [i]"
    and "positions ''longitude'' (map spec_header (columns df0)) = [j]"
    and "i \<noteq> j"
    and "df = \<lparr>columns = map spec_header (columns df0),
               rows = filter (\<lambda>r. \<not> isna (r ! i) \<and> \<not> isna (r ! j))
                 (map (\<lambda>r. r[i := to_numeric coerce (r ! i), j := to_numeric coerce (r ! j)])
                   (rows df0))\<rparr>"
proof -
  define n where "n = normalize_columns df0"
  have n_cols: "columns n = map spec_header (columns df0)" and n_rows: "rows n = rows df0"
    by (simp_all add: n_def normalize_columns_eq)
  have n_rect: "rectangular n"
    unfolding n_def using assms(1) by (rule rectangular_normalize)
  from assms(2) obtain df1 df2 where
    s1: "force_numeric coerce ''latitude'' n = Inr df1" and
    s2: "force_numeric coerce ''longitude'' df1 = Inr df2" and
    s3: "dropna [''latitude'', ''longitude''] df2 = Inr df"
    unfolding loader_def
    by (auto simp: Let_def n_def split: if_splits sum.splits)
  from n_rect s1 obtain i where
    i: "positions ''latitude'' (columns n) = [i]" and
    df1: "df1 = n\<lparr>rows := map (\<lambda>r. r[i := to_numeric coerce (r ! i)]) (rows n)\<rparr>"
    by (rule force_numeric_Inr)
  have rect1: "rectangular df1"
    unfolding df1 using n_rect by (rule rectangular_update)
  have cols1: "columns df1 = columns n" by (simp add: df1)
  from rect1 s2 obtain j where
    j: "positions ''longitude'' (columns df1) = [j]" and
    df2: "df2 = df1\<lparr>rows := map (\<lambda>r. r[j := to_numeric coerce (r ! j)]) (rows df1)\<rparr>"
    by (rule force_numeric_Inr)
  have rect2: "rectangular df2"
    unfolding df2 using rect1 by (rule rectangular_update)
  have cols2: "columns df2 = columns n" by (simp add: df2 cols1)
  have ij: "i \<noteq> j"
  proof
    assume "i = j"
    then have "columns n ! i = ''latitude''" and "columns n ! i = ''longitude''"
      using positions_single(2) [OF i] positions_single(2) [OF j] cols1 by simp_all
    then show False by simp
  qed
  have rows2: "rows df2 =
      map (\<lambda>r. r[i := to_numeric coerce (r ! i), j := to_numeric coerce (r ! j)]) (rows df0)"
    using ij by (simp add: df2 df1 n_rows comp_def)
  have keep: "list_all (\<lambda>(c, x). c \<in> set [''latitude'', ''longitude''] \<longrightarrow> \<not> isna x)
                (zip (columns df2) r) \<longleftrightarrow> \<not> isna (r ! i) \<and> \<not> isna (r ! j)"
    if "r \<in> set (rows df2)" for r
    using dropna_keeps [OF i j [unfolded cols1]] rectangularD [OF rect2 that] cols2 by simp
  have "df = df2\<lparr>rows := filter (\<lambda>r. list_all
            (\<lambda>(c, x). c \<in> set [''latitude'', ''longitude''] \<longrightarrow> \<not> isna x) (zip (columns df2) r))
          (rows df2)\<rparr>"
    using s3 by (simp add: dropna_def split: if_splits)
  also have "filter (\<lambda>r. list_all
            (\<lambda>(c, x). c \<in> set [''latitude'', ''longitude''] \<longrightarrow> \<not> isna x) (zip (columns df2) r))
          (rows df2) = filter (\<lambda>r. \<not> isna (r ! i) \<and> \<not> isna (r ! j)) (rows df2)"
    using keep by (rule filter_cong [OF refl])
  finally have "df = \<lparr>columns = map spec_header (columns df0),
               rows = filter (\<lambda>r. \<not> isna (r ! i) \<and> \<not> isna (r ! j))
                 (map (\<lambda>r. r[i := to_numeric coerce (r ! i), j := to_numeric coerce (r ! j)])
                   (rows df0))\<rparr>"
    using cols2 n_cols rows2 by simp
  with i j ij show ?thesis
    using that n_cols cols1 by simp
qed

lemma loader_rectangular:
  assumes "rectangular df0" and "loader coerce (Some df0) = Inr df"
  shows "rectangular df"
proof -
  from assms obtain i j where
    df: "df = \<lparr>columns = map spec_header (columns df0),
               rows = filter (\<lambda>r. \<not> isna (r ! i) \<and> \<not> isna (r ! j))
                 (map (\<lambda>r. r[i := to_numeric coerce (r ! i), j := to_numeric coerce (r ! j)])
                   (rows df0))\<rparr>"
    by (rule loader_Inr)
  show ?thesis
    unfolding df using rectangularD [OF assms(1)]
    by (auto simp: rectangular_def list_all_iff)
qed

text \<open>
  C5, as the code has it.  The rows the loader returns are exactly the rows of the input,
  with both coordinates converted to floats, whose latitude and longitude are both not
  NaN: a row whose coordinate is missing, or is a text that denotes no number, is
  dropped, and every surviving row holds a float other than NaN in both coordinates.
  (Nothing says the float is finite: see \<open>infinite_latitude_survives\<close>.)
\<close>

theorem loader_keeps_rows_with_coordinates:
  assumes "rectangular df0" and "loader coerce (Some df0) = Inr df"
  shows "\<exists>i j. positions ''latitude'' (columns df) = [i] \<and>
           positions ''longitude'' (columns df) = [j] \<and>
           rows df = filter (\<lambda>r. r ! i \<noteq> Num NaN \<and> r ! j \<noteq> Num NaN)
             (map (\<lambda>r. r[i := to_numeric coerce (r ! i), j := to_numeric coerce (r ! j)])
               (rows df0)) \<and>
           (\<forall>r\<in>set (rows df). \<exists>x y. r ! i = Num x \<and> x \<noteq> NaN \<and> r ! j = Num y \<and> y \<noteq> NaN)"
proof -
  from assms obtain i j where
    i: "positions ''latitude'' (map spec_header (columns df0)) = [i]" and
    j: "positions ''longitude'' (map spec_header (columns df0)) = [j]" and
    ij: "i \<noteq> j" and
    df: "df = \<lparr>columns = map spec_header (columns df0),
               rows = filter (\<lambda>r. \<not> isna (r ! i) \<and> \<not> isna (r ! j))
                 (map (\<lambda>r. r[i := to_numeric coerce (r ! i), j := to_numeric coerce (r ! j)])
                   (rows df0))\<rparr>"
    by (rule loader_Inr)
  have bound: "i < length (columns df0)" "j < length (columns df0)"
    using positions_single(1) [OF i] positions_single(1) [OF j] by simp_all
  have "\<exists>x y. r ! i = Num x \<and> x \<noteq> NaN \<and> r ! j = Num y \<and> y \<noteq> NaN"
    if r: "r \<in> set (rows df)" for r
  proof -
    from r obtain r0 where r0: "r0 \<in> set (rows df0)"
      and req: "r = r0[i := to_numeric coerce (r0 ! i), j := to_numeric coerce (r0 ! j)]"
      and ok: "\<not> isna (r ! i)" "\<not> isna (r ! j)"
      unfolding df by auto
    have len: "length r0 = length (columns df0)"
      using rectangularD [OF assms(1) r0] .
    obtain x where x: "to_numeric coerce (r0 ! i) = Num x" using to_numeric_Num by blast
    obtain y where y: "to_numeric coerce (r0 ! j) = Num y" using to_numeric_Num by blast
    have "r ! i = Num x" "r ! j = Num y"
      using req x y ij bound len by simp_all
    then show ?thesis using ok by (auto simp: isna_def)
  qed
  then show ?thesis
    using i j df by (auto simp: isna_def)
qed

theorem loader_keeps_rows_with_coordinates_witness:
  "\<exists>df. rectangular vc_csv \<and> loader no_number (Some vc_csv) = Inr df \<and>
     (\<exists>i j. positions ''latitude'' (columns df) = [i] \<and>
        positions ''longitude'' (columns df) = [j] \<and>
        rows df = filter (\<lambda>r. r ! i \<noteq> Num NaN \<and> r ! j \<noteq> Num NaN)
          (map (\<lambda>r. r[i := to_numeric no_number (r ! i), j := to_numeric no_number (r ! j)])
            (rows vc_csv)) \<and>
        (\<forall>r\<in>set (rows df). \<exists>x y. r ! i = Num x \<and> x \<noteq> NaN \<and> r ! j = Num y \<and> y \<noteq> NaN)) \<and>
     length (rows df) = 4"
proof -
  have h1: "rectangular vc_csv"
    by (simp add: rectangular_def vc_csv_def)
  have h2: "loader no_number (Some vc_csv) =
      Inr \<lparr>columns = [''name'', ''latitude'', ''longitude'', ''Sector'', ''Stage''],
           rows =
        [[Text ''Acme VC'', Num (Fin 37.77), Num (Fin (- 122.41)),
            Text ''Fintech, SaaS'', Text ''Seed''],
         [Text ''Beta Capital'', Num (Fin 40.71), Num (Fin (- 74)),
            Text ''Healthcare'', Text ''Series A''],
         [Text ''Gamma Partners'', Num (Fin 34.05), Num (Fin (- 118.24)),
            Text ''Fintech,SaaS'', Text ''Series A''],
         [Text ''Untagged'', Num (Fin 41.88), Num (Fin (- 87.63)), Text '' , '', Text ''Seed'']]\<rparr>"
    by (simp add: loader_def normalize_columns_def rename_def strip_columns_def aliases_def
        str_strip_def isspace_def force_numeric_def getitem_def setitem_def positions_def
        to_numeric_def dropna_def isna_def vc_csv_def Let_def)
  show ?thesis
    using loader_keeps_rows_with_coordinates [OF h1 h2] h1 h2 by simp
qed

text \<open>
  C5 as stated fails where it asks for finite coordinates: \<open>dropna\<close> drops NaN only, so a
  row whose latitude is the float infinity passes the loader.
\<close>

theorem infinite_latitude_survives:
  "loader no_number (Some inf_csv) =
     Inr \<lparr>columns = [''name'', ''latitude'', ''longitude''],
          rows = [[Text ''Far Away Capital'', Num PInf, Num (Fin 0)],
                  [Text ''Acme VC'', Num (Fin 37.77), Num (Fin (- 122.41))]]\<rparr>"
  by (simp add: loader_def normalize_columns_def rename_def strip_columns_def aliases_def
      str_strip_def isspace_def force_numeric_def getitem_def setitem_def positions_def
      to_numeric_def dropna_def isna_def inf_csv_def Let_def)

section \<open>Jitter and tag cleaning: what a loaded dataset looks like\<close>

lemma jitter_Inr:
  assumes "jitter uniform rnd src dst (df, s) = Inr (df', s')"
  obtains xs ds v where "getitem df src = Inr xs"
    and "uniform s (- 0.002) 0.002 (length (rows df)) = (ds, s')"
    and "series_add rnd xs ds = Inr v"
    and "setitem df dst v = Inr df'"
  using assms unfolding jitter_def
  by (auto split: sum.splits prod.splits)

lemma add_jitter_Inr:
  assumes "add_jitter uniform rnd (df, s) = Inr (df', s')"
  obtains d s1 where "jitter uniform rnd ''latitude'' ''lat_jitter'' (df, s) = Inr (d, s1)"
    and "jitter uniform rnd ''longitude'' ''lon_jitter'' (d, s1) = Inr (df', s')"
  using assms unfolding add_jitter_def
  by (auto split: sum.splits)

lemma series_add_Inr:
  assumes "series_add rnd xs ds = Inr v"
  shows "length ds = length xs" and "length v = length xs"
    and "k < length xs \<Longrightarrow> \<exists>x. xs ! k = Num x \<and> v ! k = Num (fl_add rnd x (ds ! k))"
proof -
  show len: "length ds = length xs"
    using assms by (auto simp: series_add_def split: if_splits)
  have all: "list_all2
      (\<lambda>cd y. (case cd of (c, d) \<Rightarrow>
          (case c of Num x \<Rightarrow> Inr (Num (fl_add rnd x d)) | _ \<Rightarrow> Inl TypeError)) = Inr y)
      (zip xs ds) v"
    using assms len by (auto simp: series_add_def dest: traverse_Inr split: if_splits)
  then show lv: "length v = length xs"
    using len by (auto dest: list_all2_lengthD)
  assume k: "k < length xs"
  then have "(case zip xs ds ! k of (c, d) \<Rightarrow>
          (case c of Num x \<Rightarrow> Inr (Num (fl_add rnd x d)) | _ \<Rightarrow> Inl TypeError)) = Inr (v ! k)"
    using all len by (auto dest: list_all2_nthD)
  then show "\<exists>x. xs ! k = Num x \<and> v ! k = Num (fl_add rnd x (ds ! k))"
    using k len by (auto split: cell.splits)
qed

lemma parse_tags_Inr:
  "parse_tags py_str c = Inr y \<Longrightarrow> \<exists>ts. y = Tags ts"
  by (auto simp: parse_tags_def split: cell.splits)

lemma clean_column_Inr:
  assumes "rectangular df" and "clean_column py_str name df = Inr df'"
  obtains i where "positions name (columns df) = [i]"
    and "df' = df\<lparr>rows := map (\<lambda>r. r[i := projr (parse_tags py_str (r ! i))]) (rows df)\<rparr>"
    and "\<forall>r\<in>set (rows df). \<exists>ts. parse_tags py_str (r ! i) = Inr (Tags ts)"
proof -
  from assms(2) obtain xs ys where
    g: "getitem df name = Inr xs" and
    t: "traverse (parse_tags py_str) xs = Inr ys" and
    st: "setitem df name ys = Inr df'"
    unfolding clean_column_def by (auto split: sum.splits)
  from g obtain i where
    i: "positions name (columns df) = [i]" and xs: "xs = map (\<lambda>r. r ! i) (rows df)"
    by (rule getitem_Inr)
  have ys: "ys = map (\<lambda>c. projr (parse_tags py_str c)) xs"
    using t by (rule traverse_Inr_map(1))
  have ok: "\<forall>c\<in>set xs. \<exists>y. parse_tags py_str c = Inr y"
    using t by (rule traverse_Inr_map(2))
  have "setitem df name (map (\<lambda>c. projr (parse_tags py_str c)) xs) =
      Inr (df\<lparr>rows := map (\<lambda>r. r[i := projr (parse_tags py_str (r ! i))]) (rows df)\<rparr>)"
    using update_column [OF assms(1) i, of "\<lambda>c. projr (parse_tags py_str c)"] g by simp
  then have eq: "df' =
      df\<lparr>rows := map (\<lambda>r. r[i := projr (parse_tags py_str (r ! i))]) (rows df)\<rparr>"
    using st ys by simp
  have "\<exists>ts. parse_tags py_str (r ! i) = Inr (Tags ts)" if "r \<in> set (rows df)" for r
  proof -
    from that have "r ! i \<in> set xs" by (simp add: xs)
    with ok obtain y where y: "parse_tags py_str (r ! i) = Inr y" by blast
    then obtain ts where "y = Tags ts" using parse_tags_Inr by blast
    with y show ?thesis by simp
  qed
  then have "\<forall>r\<in>set (rows df). \<exists>ts. parse_tags py_str (r ! i) = Inr (Tags ts)" by blast
  with i eq show ?thesis using that by blast
qed

lemma clean_tags_Inr:
  assumes "rectangular df" and "clean_tags py_str df = Inr df'"
  obtains a b where "positions ''Sector'' (columns df) = [a]"
    and "positions ''Stage'' (columns df) = [b]"
    and "a \<noteq> b"
    and "df' = df\<lparr>rows :=
           map (\<lambda>r. r[b := projr (parse_tags py_str (r ! b)),
                      a := projr (parse_tags py_str (r ! a))]) (rows df)\<rparr>"
    and "\<forall>r\<in>set (rows df). (\<exists>ts. parse_tags py_str (r ! a) = Inr (Tags ts)) \<and>
           (\<exists>ts. parse_tags py_str (r ! b) = Inr (Tags ts))"
proof -
  from assms(2) obtain d where
    s1: "clean_column py_str ''Stage'' df = Inr d" and
    s2: "clean_column py_str ''Sector'' d = Inr df'"
    unfolding clean_tags_def by (auto split: sum.splits)
  from assms(1) s1 obtain b where
    b: "positions ''Stage'' (columns df) = [b]" and
    d: "d = df\<lparr>rows := map (\<lambda>r. r[b := projr (parse_tags py_str (r ! b))]) (rows df)\<rparr>" and
    okb: "\<forall>r\<in>set (rows df). \<exists>ts. parse_tags py_str (r ! b) = Inr (Tags ts)"
    by (rule clean_column_Inr)
  have rect: "rectangular d"
    unfolding d using assms(1) by (rule rectangular_update)
  from rect s2 obtain a where
    a: "positions ''Sector'' (columns d) = [a]" and
    df': "df' = d\<lparr>rows := map (\<lambda>r. r[a := projr (parse_tags py_str (r ! a))]) (rows d)\<rparr>" and
    oka: "\<forall>r\<in>set (rows d). \<exists>ts. parse_tags py_str (r ! a) = Inr (Tags ts)"
    by (rule clean_column_Inr)
  have cols: "columns d = columns df" by (simp add: d)
  have ab: "a \<noteq> b"
  proof
    assume "a = b"
    then have "columns df ! b = ''Sector''" and "columns df ! b = ''Stage''"
      using positions_single(2) [OF a] positions_single(2) [OF b] cols by simp_all
    then show False by simp
  qed
  have eq: "df' = df\<lparr>rows :=
      map (\<lambda>r. r[b := projr (parse_tags py_str (r ! b)),
                 a := projr (parse_tags py_str (r ! a))]) (rows df)\<rparr>"
    using ab by (simp add: df' d comp_def)
  have "(\<exists>ts. parse_tags py_str (r ! a) = Inr (Tags ts)) \<and>
           (\<exists>ts. parse_tags py_str (r ! b) = Inr (Tags ts))" if r: "r \<in> set (rows df)" for r
  proof -
    have "r[b := projr (parse_tags py_str (r ! b))] \<in> set (rows d)"
      using r by (simp add: d)
    with oka have "\<exists>ts. parse_tags py_str (r[b := projr (parse_tags py_str (r ! b))] ! a) =
        Inr (Tags ts)" by blast
    then have "\<exists>ts. parse_tags py_str (r ! a) = Inr (Tags ts)" using ab by simp
    with okb r show ?thesis by blast
  qed
  then have "\<forall>r\<in>set (rows df). (\<exists>ts. parse_tags py_str (r ! a) = Inr (Tags ts)) \<and>
           (\<exists>ts. parse_tags py_str (r ! b) = Inr (Tags ts))" by blast
  with a b ab cols eq show ?thesis using that by simp
qed

lemma jitter_rectangular:
  assumes "rectangular df" and "jitter uniform rnd src dst (df, s) = Inr (df', s')"
  shows "rectangular df'"
proof -
  from assms(2) obtain v where "setitem df dst v = Inr df'" by (rule jitter_Inr)
  then show ?thesis using assms(1) by (rule setitem_Inr(3))
qed

lemma add_jitter_rectangular:
  assumes "rectangular df" and "add_jitter uniform rnd (df, s) = Inr (df', s')"
  shows "rectangular df'"
proof -
  from assms(2) obtain d s1 where
    j1: "jitter uniform rnd ''latitude'' ''lat_jitter'' (df, s) = Inr (d, s1)" and
    j2: "jitter uniform rnd ''longitude'' ''lon_jitter'' (d, s1) = Inr (df', s')"
    by (rule add_jitter_Inr)
  have "rectangular d" using assms(1) j1 by (rule jitter_rectangular)
  then show ?thesis using j2 by (rule jitter_rectangular)
qed

lemma load_dataset_Inr:
  assumes "load_dataset py_str coerce uniform rnd s (Some df0) = Inr (df, s')"
  obtains dl dj where "loader coerce (Some df0) = Inr dl"
    and "add_jitter uniform rnd (dl, s) = Inr (dj, s')"
    and "clean_tags py_str dj = Inr df"
  using assms unfolding load_dataset_def
  by (auto split: sum.splits prod.splits)

text \<open>
  In a loaded dataset \<open>Sector\<close> and \<open>Stage\<close> each label exactly one column, and every
  record holds a tag list in both.
\<close>

lemma loaded_tags:
  assumes "rectangular df0"
    and "load_dataset py_str coerce uniform rnd s (Some df0) = Inr (df, s')"
  obtains a b where "positions ''Sector'' (columns df) = [a]"
    and "positions ''Stage'' (columns df) = [b]"
    and "rectangular df"
    and "\<forall>r\<in>set (rows df). \<exists>ts ss. r ! a = Tags ts \<and> r ! b = Tags ss"
proof -
  from assms(2) obtain dl dj where
    l: "loader coerce (Some df0) = Inr dl" and
    j: "add_jitter uniform rnd (dl, s) = Inr (dj, s')" and
    c: "clean_tags py_str dj = Inr df"
    by (rule load_dataset_Inr)
  have "rectangular dl" using assms(1) l by (rule loader_rectangular)
  then have rect: "rectangular dj" using j by (rule add_jitter_rectangular)
  from rect c obtain a b where
    a: "positions ''Sector'' (columns dj) = [a]" and
    b: "positions ''Stage'' (columns dj) = [b]" and
    ab: "a \<noteq> b" and
    df: "df = dj\<lparr>rows :=
           map (\<lambda>r. r[b := projr (parse_tags py_str (r ! b)),
                      a := projr (parse_tags py_str (r ! a))]) (rows dj)\<rparr>" and
    ok: "\<forall>r\<in>set (rows dj). (\<exists>ts. parse_tags py_str (r ! a) = Inr (Tags ts)) \<and>
           (\<exists>ts. parse_tags py_str (r ! b) = Inr (Tags ts))"
    by (rule clean_tags_Inr)
  have bound: "a < length (columns dj)" "b < length (columns dj)"
    using positions_single(1) [OF a] positions_single(1) [OF b] by simp_all
  have rect': "rectangular df"
    unfolding df using rectangularD [OF rect]
    by (auto simp: rectangular_def list_all_iff)
  have "\<exists>ts ss. r ! a = Tags ts \<and> r ! b = Tags ss" if "r \<in> set (rows df)" for r
  proof -
    from that obtain r0 where r0: "r0 \<in> set (rows dj)"
      and r: "r = r0[b := projr (parse_tags py_str (r0 ! b)),
                     a := projr (parse_tags py_str (r0 ! a))]"
      unfolding df by auto
    have len: "length r0 = length (columns dj)" using rectangularD [OF rect r0] .
    from ok r0 obtain ts ss where
      "parse_tags py_str (r0 ! a) = Inr (Tags ts)" "parse_tags py_str (r0 ! b) = Inr (Tags ss)"
      by blast
    then show ?thesis using r ab bound len by simp
  qed
  then have "\<forall>r\<in>set (rows df). \<exists>ts ss. r ! a = Tags ts \<and> r ! b = Tags ss" by blast
  with a b rect' show ?thesis using that df by simp
qed

section \<open>Coordinate Jitterer: the cells of a loaded dataset\<close>

lemma loader_coordinates:
  assumes "rectangular df0" and "loader coerce (Some df0) = Inr df"
  obtains i j where "positions ''latitude'' (columns df) = [i]"
    and "positions ''longitude'' (columns df) = [j]"
    and "\<forall>r\<in>set (rows df). \<exists>x y. r ! i = Num x \<and> x \<noteq> NaN \<and> r ! j = Num y \<and> y \<noteq> NaN"
proof -
  from assms obtain i j where
    i: "positions ''latitude'' (map spec_header (columns df0)) = [i]" and
    j: "positions ''longitude'' (map spec_header (columns df0)) = [j]" and
    ij: "i \<noteq> j" and
    df: "df = \<lparr>columns = map spec_header (columns df0),
               rows = filter (\<lambda>r. \<not> isna (r ! i) \<and> \<not> isna (r ! j))
                 (map (\<lambda>r. r[i := to_numeric coerce (r ! i), j := to_numeric coerce (r ! j)])
                   (rows df0))\<rparr>"
    by (rule loader_Inr)
  have bound: "i < length (columns df0)" "j < length (columns df0)"
    using positions_single(1) [OF i] positions_single(1) [OF j] by simp_all
  have "\<exists>x y. r ! i = Num x \<and> x \<noteq> NaN \<and> r ! j = Num y \<and> y \<noteq> NaN"
    if r: "r \<in> set (rows df)" for r
  proof -
    from r obtain r0 where r0: "r0 \<in> set (rows df0)"
      and req: "r = r0[i := to_numeric coerce (r0 ! i), j := to_numeric coerce (r0 ! j)]"
      and ok: "\<not> isna (r ! i)" "\<not> isna (r ! j)"
      unfolding df by auto
    have len: "length r0 = length (columns df0)"
      using rectangularD [OF assms(1) r0] .
    obtain x where x: "to_numeric coerce (r0 ! i) = Num x" using to_numeric_Num by blast
    obtain y where y: "to_numeric coerce (r0 ! j) = Num y" using to_numeric_Num by blast
    have "r ! i = Num x" "r ! j = Num y"
      using req x y ij bound len by simp_all
    then show ?thesis using ok by (auto simp: isna_def)
  qed
  then have "\<forall>r\<in>set (rows df). \<exists>x y. r ! i = Num x \<and> x \<noteq> NaN \<and> r ! j = Num y \<and> y \<noteq> NaN"
    by blast
  with i j show ?thesis using that df by simp
qed

lemma jitter_cells:
  assumes "rectangular df" and "jitter uniform rnd src dst (df, s) = Inr (df', s')"
  obtains i ds where "positions src (columns df) = [i]"
    and "uniform s (- 0.002) 0.002 (length (rows df)) = (ds, s')"
    and "length ds = length (rows df)"
    and "\<forall>k<length (rows df). \<exists>x. rows df ! k ! i = Num x \<and>
           (\<forall>p\<in>set (positions dst (columns df')). rows df' ! k ! p = Num (fl_add rnd x (ds ! k)))"
proof -
  from assms(2) obtain xs ds v where
    g: "getitem df src = Inr xs" and
    u: "uniform s (- 0.002) 0.002 (length (rows df)) = (ds, s')" and
    a: "series_add rnd xs ds = Inr v" and
    st: "setitem df dst v = Inr df'"
    by (rule jitter_Inr)
  from g obtain i where
    i: "positions src (columns df) = [i]" and xs: "xs = map (\<lambda>r. r ! i) (rows df)"
    by (rule getitem_Inr)
  have len: "length xs = length (rows df)" by (simp add: xs)
  have lds: "length ds = length (rows df)" using series_add_Inr(1) [OF a] len by simp
  have "\<exists>x. rows df ! k ! i = Num x \<and>
           (\<forall>p\<in>set (positions dst (columns df')). rows df' ! k ! p = Num (fl_add rnd x (ds ! k)))"
    if k: "k < length (rows df)" for k
  proof -
    from series_add_Inr(3) [OF a, of k] k len obtain x where
      x: "xs ! k = Num x" "v ! k = Num (fl_add rnd x (ds ! k))" by auto
    have "rows df ! k ! i = Num x" using x(1) k by (simp add: xs)
    moreover have "rows df' ! k ! p = Num (fl_add rnd x (ds ! k))"
      if "p \<in> set (positions dst (columns df'))" for p
      using setitem_Inr(5) [OF st assms(1) k, of p] that x(2) by (simp add: set_positions)
    ultimately show ?thesis by blast
  qed
  then have "\<forall>k<length (rows df). \<exists>x. rows df ! k ! i = Num x \<and>
           (\<forall>p\<in>set (positions dst (columns df')). rows df' ! k ! p = Num (fl_add rnd x (ds ! k)))"
    by blast
  with i u lds show ?thesis using that by blast
qed

lemma jitter_shape:
  assumes "rectangular df" and "jitter uniform rnd src dst (df, s) = Inr (df', s')"
  shows "length (rows df') = length (rows df)"
    and "positions dst (columns df') \<noteq> []"
    and "columns df' = (if dst \<in> set (columns df) then columns df else columns df @ [dst])"
proof -
  from assms(2) obtain v where st: "setitem df dst v = Inr df'" by (rule jitter_Inr)
  show "length (rows df') = length (rows df)" using st assms(1) by (rule setitem_Inr(2))
  show "positions dst (columns df') \<noteq> []" using st assms(1) by (rule setitem_label_present)
  show "columns df' = (if dst \<in> set (columns df) then columns df else columns df @ [dst])"
    using st assms(1) by (rule setitem_Inr(4))
qed

lemma jitter_frame:
  assumes "rectangular df" and "jitter uniform rnd src dst (df, s) = Inr (df', s')"
    and "other \<noteq> dst"
  shows "positions other (columns df') = positions other (columns df)"
    and "k < length (rows df) \<Longrightarrow> p \<in> set (positions other (columns df)) \<Longrightarrow>
           rows df' ! k ! p = rows df ! k ! p"
proof -
  from assms(2) obtain v where st: "setitem df dst v = Inr df'" by (rule jitter_Inr)
  show pos: "positions other (columns df') = positions other (columns df)"
    using st assms(1,3) by (rule setitem_positions_other)
  assume k: "k < length (rows df)" and p: "p \<in> set (positions other (columns df))"
  from p pos have "p \<in> set (positions other (columns df'))" by simp
  then have "p < length (columns df')" "columns df' ! p = other"
    by (simp_all add: set_positions)
  then show "rows df' ! k ! p = rows df ! k ! p"
    using setitem_Inr(5) [OF st assms(1) k, of p] assms(3) by simp
qed

lemma clean_tags_frame:
  assumes "rectangular dj" and "clean_tags py_str dj = Inr df"
  shows "columns df = columns dj"
    and "length (rows df) = length (rows dj)"
    and "other \<noteq> ''Sector'' \<Longrightarrow> other \<noteq> ''Stage'' \<Longrightarrow> k < length (rows dj) \<Longrightarrow>
           p \<in> set (positions other (columns dj)) \<Longrightarrow> rows df ! k ! p = rows dj ! k ! p"
proof -
  from assms obtain a b where
    a: "positions ''Sector'' (columns dj) = [a]" and
    b: "positions ''Stage'' (columns dj) = [b]" and
    df: "df = dj\<lparr>rows :=
           map (\<lambda>r. r[b := projr (parse_tags py_str (r ! b)),
                      a := projr (parse_tags py_str (r ! a))]) (rows dj)\<rparr>"
    by (rule clean_tags_Inr)
  show "columns df = columns dj" by (simp add: df)
  show "length (rows df) = length (rows dj)" by (simp add: df)
  assume o: "other \<noteq> ''Sector''" "other \<noteq> ''Stage''" and k: "k < length (rows dj)"
    and p: "p \<in> set (positions other (columns dj))"
  have "columns dj ! p = other" using p by (simp add: set_positions)
  then have "p \<noteq> a" "p \<noteq> b"
    using o positions_single(2) [OF a] positions_single(2) [OF b] by auto
  then show "rows df ! k ! p = rows dj ! k ! p"
    using k by (simp add: df)
qed

text \<open>
  A loaded dataset: one \<open>latitude\<close> and one \<open>longitude\<close> column, both holding floats
  other than NaN, and under \<open>lat_jitter\<close> and \<open>lon_jitter\<close> the coordinate plus the draw
  of the record's index.
\<close>

lemma loaded_jitter:
  assumes "rectangular df0"
    and "load_dataset py_str coerce uniform rnd s (Some df0) = Inr (df, s')"
  obtains i j ds1 s1 ds2 where
    "positions ''latitude'' (columns df) = [i]"
    and "positions ''longitude'' (columns df) = [j]"
    and "rectangular df"
    and "uniform s (- 0.002) 0.002 (length (rows df)) = (ds1, s1)"
    and "uniform s1 (- 0.002) 0.002 (length (rows df)) = (ds2, s')"
    and "length ds1 = length (rows df)" and "length ds2 = length (rows df)"
    and "positions ''lat_jitter'' (columns df) \<noteq> []"
    and "positions ''lon_jitter'' (columns df) \<noteq> []"
    and "\<forall>k<length (rows df). \<exists>x y. x \<noteq> NaN \<and> y \<noteq> NaN \<and>
           rows df ! k ! i = Num x \<and> rows df ! k ! j = Num y \<and>
           (\<forall>p\<in>set (positions ''lat_jitter'' (columns df)).
              rows df ! k ! p = Num (fl_add rnd x (ds1 ! k))) \<and>
           (\<forall>p\<in>set (positions ''lon_jitter'' (columns df)).
              rows df ! k ! p = Num (fl_add rnd y (ds2 ! k)))"
proof -
  from assms(2) obtain dl dj where
    l: "loader coerce (Some df0) = Inr dl" and
    aj: "add_jitter uniform rnd (dl, s) = Inr (dj, s')" and
    c: "clean_tags py_str dj = Inr df"
    by (rule load_dataset_Inr)
  from aj obtain d1 s1 where
    j1: "jitter uniform rnd ''latitude'' ''lat_jitter'' (dl, s) = Inr (d1, s1)" and
    j2: "jitter uniform rnd ''longitude'' ''lon_jitter'' (d1, s1) = Inr (dj, s')"
    by (rule add_jitter_Inr)
  have rl: "rectangular dl" using assms(1) l by (rule loader_rectangular)
  have r1: "rectangular d1" using rl j1 by (rule jitter_rectangular)
  have rj: "rectangular dj" using r1 j2 by (rule jitter_rectangular)
  from assms(1,2) have rdf: "rectangular df" by (rule loaded_tags)
  from assms(1) l obtain i j where
    i: "positions ''latitude'' (columns dl) = [i]" and
    j: "positions ''longitude'' (columns dl) = [j]" and
    coords: "\<forall>r\<in>set (rows dl). \<exists>x y. r ! i = Num x \<and> x \<noteq> NaN \<and> r ! j = Num y \<and> y \<noteq> NaN"
    by (rule loader_coordinates)
  from rl j1 obtain i' ds1 where
    i': "positions ''latitude'' (columns dl) = [i']" and
    u1: "uniform s (- 0.002) 0.002 (length (rows dl)) = (ds1, s1)" and
    l1: "length ds1 = length (rows dl)" and
    c1: "\<forall>k<length (rows dl). \<exists>x. rows dl ! k ! i' = Num x \<and>
           (\<forall>p\<in>set (positions ''lat_jitter'' (columns d1)).
              rows d1 ! k ! p = Num (fl_add rnd x (ds1 ! k)))"
    by (rule jitter_cells)
  from r1 j2 obtain j' ds2 where
    j': "positions ''longitude'' (columns d1) = [j']" and
    u2: "uniform s1 (- 0.002) 0.002 (length (rows d1)) = (ds2, s')" and
    l2: "length ds2 = length (rows d1)" and
    c2: "\<forall>k<length (rows d1). \<exists>x. rows d1 ! k ! j' = Num x \<and>
           (\<forall>p\<in>set (positions ''lon_jitter'' (columns dj)).
              rows dj ! k ! p = Num (fl_add rnd x (ds2 ! k)))"
    by (rule jitter_cells)
  have ii: "i' = i" using i i' by simp
  have n1: "length (rows d1) = length (rows dl)" using rl j1 by (rule jitter_shape(1))
  have nj: "length (rows dj) = length (rows d1)" using r1 j2 by (rule jitter_shape(1))
  have nf: "length (rows df) = length (rows dj)" using rj c by (rule clean_tags_frame(2))
  have cols: "columns df = columns dj" using rj c by (rule clean_tags_frame(1))
  have p1: "positions other (columns d1) = positions other (columns dl)"
    if "other \<noteq> ''lat_jitter''" for other
    using rl j1 that by (rule jitter_frame(1))
  have p2: "positions other (columns dj) = positions other (columns d1)"
    if "other \<noteq> ''lon_jitter''" for other
    using r1 j2 that by (rule jitter_frame(1))
  have jj: "j' = j" using j j' p1 [of "''longitude''"] by simp
  have pi: "positions ''latitude'' (columns df) = [i]"
    using i p1 [of "''latitude''"] p2 [of "''latitude''"] cols by simp
  have pj: "positions ''longitude'' (columns df) = [j]"
    using j p1 [of "''longitude''"] p2 [of "''longitude''"] cols by simp
  have plat: "positions ''lat_jitter'' (columns df) = positions ''lat_jitter'' (columns d1)"
    using p2 [of "''lat_jitter''"] cols by simp
  have plon: "positions ''lon_jitter'' (columns df) = positions ''lon_jitter'' (columns dj)"
    using cols by simp
  have ne1: "positions ''lat_jitter'' (columns df) \<noteq> []"
    unfolding plat using rl j1 by (rule jitter_shape(2))
  have ne2: "positions ''lon_jitter'' (columns df) \<noteq> []"
    unfolding plon using r1 j2 by (rule jitter_shape(2))
  have cells: "\<exists>x y. x \<noteq> NaN \<and> y \<noteq> NaN \<and>
           rows df ! k ! i = Num x \<and> rows df ! k ! j = Num y \<and>
           (\<forall>p\<in>set (positions ''lat_jitter'' (columns df)).
              rows df ! k ! p = Num (fl_add rnd x (ds1 ! k))) \<and>
           (\<forall>p\<in>set (positions ''lon_jitter'' (columns df)).
              rows df ! k ! p = Num (fl_add rnd y (ds2 ! k)))"
    if k: "k < length (rows df)" for k
  proof -
    have kl: "k < length (rows dl)" and k1: "k < length (rows d1)" and kj: "k < length (rows dj)"
      using k n1 nj nf by simp_all
    from coords kl obtain x y where
      x: "rows dl ! k ! i = Num x" "x \<noteq> NaN" and y: "rows dl ! k ! j = Num y" "y \<noteq> NaN"
      using nth_mem [OF kl] by blast
    text \<open>a cell under a label other than the two jitter labels, Sector and Stage\<close>
    have keep: "rows df ! k ! p = rows dl ! k ! p"
      if o: "other \<noteq> ''lat_jitter''" "other \<noteq> ''lon_jitter''"
        "other \<noteq> ''Sector''" "other \<noteq> ''Stage''"
        and p: "p \<in> set (positions other (columns dl))" for other p
    proof -
      have "rows d1 ! k ! p = rows dl ! k ! p"
        using rl j1 o(1) kl p by (rule jitter_frame(2))
      moreover have "rows dj ! k ! p = rows d1 ! k ! p"
        using r1 j2 o(2) k1 p [folded p1 [OF o(1)]] by (rule jitter_frame(2))
      moreover have "rows df ! k ! p = rows dj ! k ! p"
        using rj c o(3,4) kj p [folded p1 [OF o(1)], folded p2 [OF o(2)]]
        by (rule clean_tags_frame(3))
      ultimately show ?thesis by simp
    qed
    have fi: "rows df ! k ! i = Num x"
      using keep [of "''latitude''" i] i x(1) by simp
    have fj: "rows df ! k ! j = Num y"
      using keep [of "''longitude''" j] j y(1) by simp
    have lat: "rows df ! k ! p = Num (fl_add rnd x (ds1 ! k))"
      if p: "p \<in> set (positions ''lat_jitter'' (columns df))" for p
    proof -
      have p1': "p \<in> set (positions ''lat_jitter'' (columns d1))" using p plat by simp
      then have pj': "p \<in> set (positions ''lat_jitter'' (columns dj))"
        using p2 [of "''lat_jitter''"] by simp
      have "rows d1 ! k ! p = Num (fl_add rnd x (ds1 ! k))"
        using c1 kl x(1) p1' ii by auto
      moreover have "rows dj ! k ! p = rows d1 ! k ! p"
        using r1 j2 _ k1 p1' by (rule jitter_frame(2)) simp
      moreover have "rows df ! k ! p = rows dj ! k ! p"
        using rj c _ _ kj pj' by (rule clean_tags_frame(3)) simp_all
      ultimately show ?thesis by simp
    qed
    have y1: "rows d1 ! k ! j = Num y"
    proof -
      have "rows d1 ! k ! j = rows dl ! k ! j"
        using jitter_frame(2) [OF rl j1 _ kl, of "''longitude''" j] j by simp
      then show ?thesis using y(1) by simp
    qed
    have lon: "rows df ! k ! p = Num (fl_add rnd y (ds2 ! k))"
      if p: "p \<in> set (positions ''lon_jitter'' (columns df))" for p
    proof -
      have pj': "p \<in> set (positions ''lon_jitter'' (columns dj))" using p plon by simp
      have "rows dj ! k ! p = Num (fl_add rnd y (ds2 ! k))"
        using c2 k1 y1 pj' jj by auto
      moreover have "rows df ! k ! p = rows dj ! k ! p"
        using rj c _ _ kj pj' by (rule clean_tags_frame(3)) simp_all
      ultimately show ?thesis by simp
    qed
    show ?thesis using x(2) y(2) fi fj lat lon by blast
  qed
  then have all: "\<forall>k<length (rows df). \<exists>x y. x \<noteq> NaN \<and> y \<noteq> NaN \<and>
           rows df ! k ! i = Num x \<and> rows df ! k ! j = Num y \<and>
           (\<forall>p\<in>set (positions ''lat_jitter'' (columns df)).
              rows df ! k ! p = Num (fl_add rnd x (ds1 ! k))) \<and>
           (\<forall>p\<in>set (positions ''lon_jitter'' (columns df)).
              rows df ! k ! p = Num (fl_add rnd y (ds2 ! k)))"
    by blast
  have u1': "uniform s (- 0.002) 0.002 (length (rows df)) = (ds1, s1)"
    using u1 n1 nj nf by simp
  have u2': "uniform s1 (- 0.002) 0.002 (length (rows df)) = (ds2, s')"
    using u2 nj nf by simp
  have l1': "length ds1 = length (rows df)" using l1 n1 nj nf by simp
  have l2': "length ds2 = length (rows df)" using l2 nj nf by simp
  show ?thesis
    using that [OF pi pj rdf u1' u2' l1' l2' ne1 ne2 all] .
qed

lemma fl_add_mono:
  assumes "\<forall>a b. a \<le> b \<longrightarrow> fl_le (rnd a) (rnd b)" and "x \<noteq> NaN" and "d \<le> e"
  shows "fl_le (fl_add rnd x d) (fl_add rnd x e)"
  using assms by (cases x) (simp_all add: fl_add_def)

section \<open>Facts about the filter\<close>

lemma cell_at_unique:
  assumes "positions name (columns df) = [i]" and "length r = length (columns df)"
  shows "cell_at df name r = Some (r ! i)"
  using assms positions_single(1) [OF assms(1)] by (simp add: cell_at_def)

lemma tags_at_unique:
  assumes "positions name (columns df) = [i]" and "length r = length (columns df)"
  shows "tags_at df name r = (case r ! i of Tags ts \<Rightarrow> ts | _ \<Rightarrow> [])"
  using cell_at_unique [OF assms] by (simp add: tags_at_def)

lemma select_by_two_masks:
  "map fst (filter snd (zip rs (map2 (\<and>) (map f rs) (map g rs)))) = filter (\<lambda>r. f r \<and> g r) rs"
  by (induction rs) auto

lemma tag_mask_tagged:
  assumes "positions name (columns df) = [i]"
    and "\<And>r. r \<in> set (rows df) \<Longrightarrow> \<exists>ts. r ! i = Tags ts"
  shows "tag_mask df name selected =
           Inr (map (\<lambda>r. list_ex (\<lambda>s. s \<in> set selected) (case r ! i of Tags ts \<Rightarrow> ts | _ \<Rightarrow> []))
                 (rows df))"
proof -
  have "traverse (any_selected selected) (map (\<lambda>r. r ! i) (rows df)) =
          Inr (map (\<lambda>c. list_ex (\<lambda>s. s \<in> set selected) (case c of Tags ts \<Rightarrow> ts | _ \<Rightarrow> []))
                (map (\<lambda>r. r ! i) (rows df)))"
  proof (rule traverse_total)
    fix c assume "c \<in> set (map (\<lambda>r. r ! i) (rows df))"
    then obtain ts where "c = Tags ts" using assms(2) by auto
    then show "any_selected selected c =
        Inr (list_ex (\<lambda>s. s \<in> set selected) (case c of Tags ts \<Rightarrow> ts | _ \<Rightarrow> []))"
      by (simp add: any_selected_def py_iter_def)
  qed
  then show ?thesis
    using assms(1) by (simp add: tag_mask_def getitem_def comp_def)
qed

text \<open>The filter on a loaded dataset, for two selections that are not empty.\<close>

lemma filter_engine_loaded:
  assumes "rectangular df0"
    and "load_dataset py_str coerce uniform rnd s (Some df0) = Inr (df, s')"
    and "selected_sectors \<noteq> []" and "selected_stages \<noteq> []"
  shows "filter_engine df selected_sectors selected_stages =
           Inr (None, df\<lparr>rows := filter
             (\<lambda>r. (\<exists>t\<in>set (tags_at df ''Sector'' r). t \<in> set selected_sectors) \<and>
                  (\<exists>t\<in>set (tags_at df ''Stage'' r). t \<in> set selected_stages))
             (rows df)\<rparr>)"
proof -
  from assms(1,2) obtain a b where
    a: "positions ''Sector'' (columns df) = [a]" and
    b: "positions ''Stage'' (columns df) = [b]" and
    rect: "rectangular df" and
    tags: "\<forall>r\<in>set (rows df). \<exists>ts ss. r ! a = Tags ts \<and> r ! b = Tags ss"
    by (rule loaded_tags)
  let ?f = "\<lambda>r. list_ex (\<lambda>s. s \<in> set selected_sectors) (case r ! a of Tags ts \<Rightarrow> ts | _ \<Rightarrow> [])"
  let ?g = "\<lambda>r. list_ex (\<lambda>s. s \<in> set selected_stages) (case r ! b of Tags ts \<Rightarrow> ts | _ \<Rightarrow> [])"
  have m1: "tag_mask df ''Sector'' selected_sectors = Inr (map ?f (rows df))"
    using a tags by (intro tag_mask_tagged) blast+
  have m2: "tag_mask df ''Stage'' selected_stages = Inr (map ?g (rows df))"
    using b tags by (intro tag_mask_tagged) blast+
  have "filter_engine df selected_sectors selected_stages =
          Inr (None, df\<lparr>rows := filter (\<lambda>r. ?f r \<and> ?g r) (rows df)\<rparr>)"
    using assms(3,4) m1 m2
    by (simp add: filter_engine_def select_rows_def select_by_two_masks)
  moreover have "filter (\<lambda>r. ?f r \<and> ?g r) (rows df) = filter
             (\<lambda>r. (\<exists>t\<in>set (tags_at df ''Sector'' r). t \<in> set selected_sectors) \<and>
                  (\<exists>t\<in>set (tags_at df ''Stage'' r). t \<in> set selected_stages))
             (rows df)"
  proof (rule filter_cong [OF refl])
    fix r assume "r \<in> set (rows df)"
    then have len: "length r = length (columns df)" using rectangularD [OF rect] by simp
    show "(?f r \<and> ?g r) \<longleftrightarrow>
        ((\<exists>t\<in>set (tags_at df ''Sector'' r). t \<in> set selected_sectors) \<and>
         (\<exists>t\<in>set (tags_at df ''Stage'' r). t \<in> set selected_stages))"
      by (simp add: tags_at_unique [OF a len] tags_at_unique [OF b len] list_ex_iff)
  qed
  ultimately show ?thesis by simp
qed

lemma loaded_cells:
  assumes "rectangular df0"
    and "load_dataset py_str coerce uniform rnd s (Some df0) = Inr (df, s')"
    and "r \<in> set (rows df)"
  shows "cell_at df ''Sector'' r = Some (Tags (tags_at df ''Sector'' r))"
    and "cell_at df ''Stage'' r = Some (Tags (tags_at df ''Stage'' r))"
proof -
  from assms(1,2) obtain a b where
    a: "positions ''Sector'' (columns df) = [a]" and
    b: "positions ''Stage'' (columns df) = [b]" and
    rect: "rectangular df" and
    tags: "\<forall>r\<in>set (rows df). \<exists>ts ss. r ! a = Tags ts \<and> r ! b = Tags ss"
    by (rule loaded_tags)
  have len: "length r = length (columns df)" using rectangularD [OF rect assms(3)] .
  from tags assms(3) obtain ts ss where t: "r ! a = Tags ts" "r ! b = Tags ss" by blast
  show "cell_at df ''Sector'' r = Some (Tags (tags_at df ''Sector'' r))"
    using t by (simp add: tags_at_unique [OF a len] cell_at_unique [OF a len])
  show "cell_at df ''Stage'' r = Some (Tags (tags_at df ''Stage'' r))"
    using t by (simp add: tags_at_unique [OF b len] cell_at_unique [OF b len])
qed

lemma all_tags_tagged:
  assumes "positions name (columns df) = [i]"
    and "\<forall>r\<in>set (rows df). \<exists>ts. r ! i = Tags ts"
  shows "\<exists>ss. all_tags df name = Inr ss"
proof -
  have "traverse py_iter (map (\<lambda>r. r ! i) (rows df)) =
          Inr (map (\<lambda>c. case c of Tags ts \<Rightarrow> ts | _ \<Rightarrow> []) (map (\<lambda>r. r ! i) (rows df)))"
  proof (rule traverse_total)
    fix c assume "c \<in> set (map (\<lambda>r. r ! i) (rows df))"
    then obtain ts where "c = Tags ts" using assms(2) by auto
    then show "py_iter c = Inr (case c of Tags ts \<Rightarrow> ts | _ \<Rightarrow> [])"
      by (simp add: py_iter_def)
  qed
  then show ?thesis
    using assms(1) by (simp add: all_tags_def getitem_def)
qed

text \<open>The evaluation of the example, shared by the witnesses below.\<close>

lemma vc_csv_rectangular: "rectangular vc_csv"
  by (simp add: rectangular_def vc_csv_def)

lemma vc_csv_loaded:
  "load_dataset nan_str no_number stepping_uniform exact 0 (Some vc_csv) = Inr (vc_loaded, 8)"
  by (simp add: load_dataset_def loader_def normalize_columns_def rename_def strip_columns_def
      aliases_def str_strip_def isspace_def force_numeric_def getitem_def setitem_def
      positions_def to_numeric_def dropna_def isna_def add_jitter_def jitter_def series_add_def
      fl_add_def stepping_uniform_def exact_def nan_str_def no_number_def vc_csv_def
      clean_tags_def clean_column_def parse_tags_def astype_str_def tag_parser_def
      str_split_def vc_loaded_def Let_def)

section \<open>Tables that differ at most under given labels\<close>

lemma agree_off_refl: "rectangular d \<Longrightarrow> agree_off labels d d"
  by (simp add: agree_off_def list_all2_same)

lemma agree_offD:
  assumes "agree_off labels d e"
  shows "columns d = columns e" and "rectangular d" and "rectangular e"
    and "length (rows d) = length (rows e)"
    and "k < length (rows d) \<Longrightarrow> p < length (columns d) \<Longrightarrow> columns d ! p \<notin> set labels \<Longrightarrow>
           rows d ! k ! p = rows e ! k ! p"
  using assms by (auto simp: agree_off_def list_all2_conv_all_nth)

lemma agree_offI:
  assumes "columns d = columns e" and "rectangular d" and "rectangular e"
    and "length (rows d) = length (rows e)"
    and "\<And>k p. k < length (rows d) \<Longrightarrow> p < length (columns d) \<Longrightarrow>
           columns d ! p \<notin> set labels \<Longrightarrow> rows d ! k ! p = rows e ! k ! p"
  shows "agree_off labels d e"
  using assms by (auto simp: agree_off_def list_all2_conv_all_nth)

text \<open>
  Assigning a column keeps two tables in agreement when the label is one of those set
  aside, or when both tables are assigned the same values.
\<close>

lemma setitem_agree:
  assumes ag: "agree_off labels d e"
    and same: "name \<in> set labels \<or> vs = ws"
    and sd: "setitem d name vs = Inr d'" and se: "setitem e name ws = Inr e'"
  shows "agree_off labels d' e'"
proof (rule agree_offI)
  note rd = agree_offD(2) [OF ag] and re = agree_offD(3) [OF ag]
  note cols = agree_offD(1) [OF ag]
  have cd: "columns d' = (if name \<in> set (columns d) then columns d else columns d @ [name])"
    using sd rd by (rule setitem_Inr(4))
  have ce: "columns e' = (if name \<in> set (columns e) then columns e else columns e @ [name])"
    using se re by (rule setitem_Inr(4))
  show ceq': "columns d' = columns e'" using cd ce cols by simp
  show "rectangular d'" using sd rd by (rule setitem_Inr(3))
  show "rectangular e'" using se re by (rule setitem_Inr(3))
  have nd: "length (rows d') = length (rows d)" using sd rd by (rule setitem_Inr(2))
  have ne: "length (rows e') = length (rows e)" using se re by (rule setitem_Inr(2))
  show "length (rows d') = length (rows e')"
    using nd ne agree_offD(4) [OF ag] by simp
  fix k p
  assume k: "k < length (rows d')" and p: "p < length (columns d')"
    and off: "columns d' ! p \<notin> set labels"
  have kd: "k < length (rows d)" and ke: "k < length (rows e)"
    using k nd agree_offD(4) [OF ag] by simp_all
  have pe: "p < length (columns e')" using p ceq' by simp
  have ceq: "columns e' ! p = columns d' ! p" using ceq' by simp
  have d: "rows d' ! k ! p = (if columns d' ! p = name then vs ! k else rows d ! k ! p)"
    using sd rd kd p by (rule setitem_Inr(5))
  have e: "rows e' ! k ! p = (if columns d' ! p = name then ws ! k else rows e ! k ! p)"
    using setitem_Inr(5) [OF se re ke pe] ceq by simp
  show "rows d' ! k ! p = rows e' ! k ! p"
  proof (cases "columns d' ! p = name")
    case True
    then have "vs = ws" using same off by auto
    then show ?thesis using d e True by simp
  next
    case False
    have pd: "p < length (columns d)"
    proof (rule ccontr)
      assume "\<not> p < length (columns d)"
      then have "columns d' ! p = name"
        using p cd by (auto simp: nth_append less_Suc_eq split: if_splits)
      with False show False by simp
    qed
    have "columns d ! p = columns d' ! p"
      using pd cd by (simp add: nth_append)
    then have "rows d ! k ! p = rows e ! k ! p"
      using agree_offD(5) [OF ag kd pd] off by simp
    then show ?thesis using d e False by simp
  qed
qed

lemma getitem_agree:
  assumes ag: "agree_off labels d e" and off: "name \<notin> set labels"
  shows "getitem d name = getitem e name"
proof -
  note cols = agree_offD(1) [OF ag]
  have "map (\<lambda>r. r ! i) (rows d) = map (\<lambda>r. r ! i) (rows e)"
    if i: "positions name (columns d) = [i]" for i
  proof (rule nth_equalityI)
    show "length (map (\<lambda>r. r ! i) (rows d)) = length (map (\<lambda>r. r ! i) (rows e))"
      using agree_offD(4) [OF ag] by simp
    fix k assume "k < length (map (\<lambda>r. r ! i) (rows d))"
    then have k: "k < length (rows d)" by simp
    then have ke: "k < length (rows e)" using agree_offD(4) [OF ag] by simp
    have "rows d ! k ! i = rows e ! k ! i"
      using agree_offD(5) [OF ag k positions_single(1) [OF i]] positions_single(2) [OF i] off
      by simp
    then show "map (\<lambda>r. r ! i) (rows d) ! k = map (\<lambda>r. r ! i) (rows e) ! k"
      using k ke by simp
  qed
  then show ?thesis
    unfolding getitem_def cols [symmetric] by (auto split: list.splits)
qed

lemma jitter_agree:
  assumes "agree_off labels d e" and "dst \<in> set labels"
    and "jitter uniform rnd src dst (d, s) = Inr (d', s')"
    and "jitter uniform' rnd' src' dst (e, t) = Inr (e', t')"
  shows "agree_off labels d' e'"
proof -
  from assms(3) obtain v where sd: "setitem d dst v = Inr d'" by (rule jitter_Inr)
  from assms(4) obtain w where se: "setitem e dst w = Inr e'" by (rule jitter_Inr)
  from assms(2) have "dst \<in> set labels \<or> v = w" by simp
  with assms(1) show ?thesis using sd se by (rule setitem_agree)
qed

lemma clean_column_agree:
  assumes ag: "agree_off labels d e" and off: "name \<notin> set labels"
    and cd: "clean_column py_str name d = Inr d'"
    and ce: "clean_column py_str name e = Inr e'"
  shows "agree_off labels d' e'"
proof -
  from cd obtain xs ys where
    g: "getitem d name = Inr xs" and
    t: "traverse (parse_tags py_str) xs = Inr ys" and
    sd: "setitem d name ys = Inr d'"
    unfolding clean_column_def by (auto split: sum.splits)
  have "getitem e name = Inr xs" using getitem_agree [OF ag off] g by simp
  then have se: "setitem e name ys = Inr e'"
    using ce t unfolding clean_column_def by simp
  have "name \<in> set labels \<or> ys = ys" by simp
  with ag show ?thesis using sd se by (rule setitem_agree)
qed

lemma list_all2_select:
  "list_all2 R xs ys \<Longrightarrow>
     list_all2 R (map fst (filter snd (zip xs keep))) (map fst (filter snd (zip ys keep)))"
proof (induction xs ys arbitrary: keep rule: list_all2_induct)
  case Nil
  then show ?case by simp
next
  case (Cons x xs y ys)
  then show ?case by (cases keep) auto
qed

lemma select_rows_rectangular:
  assumes "rectangular d"
  shows "rectangular (select_rows d keep)"
proof -
  have "length r = length (columns d)"
    if "r \<in> set (map fst (filter snd (zip (rows d) keep)))" for r
  proof -
    from that have "r \<in> set (rows d)" by (auto dest: set_zip_leftD)
    then show ?thesis using assms by (rule rectangularD [rotated])
  qed
  then show ?thesis
    by (simp add: rectangular_def list_all_iff select_rows_def)
qed

lemma select_rows_agree:
  assumes "agree_off labels d e"
  shows "agree_off labels (select_rows d keep) (select_rows e keep)"
proof -
  have "rectangular (select_rows d keep)"
    using agree_offD(2) [OF assms] by (rule select_rows_rectangular)
  moreover have "rectangular (select_rows e keep)"
    using agree_offD(3) [OF assms] by (rule select_rows_rectangular)
  moreover have "columns (select_rows d keep) = columns (select_rows e keep)"
    using agree_offD(1) [OF assms] by (simp add: select_rows_def)
  moreover have "list_all2
      (\<lambda>r r'. \<forall>p<length (columns d). columns d ! p \<notin> set labels \<longrightarrow> r ! p = r' ! p)
      (rows (select_rows d keep)) (rows (select_rows e keep))"
  proof -
    have "list_all2
      (\<lambda>r r'. \<forall>p<length (columns d). columns d ! p \<notin> set labels \<longrightarrow> r ! p = r' ! p)
      (rows d) (rows e)"
      using assms unfolding agree_off_def by (elim conjE)
    then show ?thesis
      unfolding select_rows_def by (simp add: list_all2_select)
  qed
  ultimately show ?thesis
    by (simp add: agree_off_def select_rows_def)
qed

lemma drop_labels_agree:
  assumes "agree_off labels d e"
  shows "drop_labels labels d = drop_labels labels e"
proof -
  note cols = agree_offD(1) [OF assms]
  let ?ps = "filter (\<lambda>p. columns d ! p \<notin> set labels) [0..<length (columns d)]"
  have "map (\<lambda>r. map (\<lambda>p. r ! p) ?ps) (rows d) = map (\<lambda>r. map (\<lambda>p. r ! p) ?ps) (rows e)"
  proof (rule nth_equalityI)
    show "length (map (\<lambda>r. map (\<lambda>p. r ! p) ?ps) (rows d)) =
        length (map (\<lambda>r. map (\<lambda>p. r ! p) ?ps) (rows e))"
      using agree_offD(4) [OF assms] by simp
    fix k assume "k < length (map (\<lambda>r. map (\<lambda>p. r ! p) ?ps) (rows d))"
    then have k: "k < length (rows d)" by simp
    then have ke: "k < length (rows e)" using agree_offD(4) [OF assms] by simp
    have "map (\<lambda>p. rows d ! k ! p) ?ps = map (\<lambda>p. rows e ! k ! p) ?ps"
      using agree_offD(5) [OF assms k] by (intro map_cong refl) simp
    then show "map (\<lambda>r. map (\<lambda>p. r ! p) ?ps) (rows d) ! k =
        map (\<lambda>r. map (\<lambda>p. r ! p) ?ps) (rows e) ! k"
      using k ke by simp
  qed
  then show ?thesis
    unfolding drop_labels_def cols [symmetric] by simp
qed

lemma tag_mask_agree:
  assumes "agree_off labels d e" and "name \<notin> set labels"
  shows "tag_mask d name selected = tag_mask e name selected"
  unfolding tag_mask_def getitem_agree [OF assms] ..

text \<open>Two loads of the same file differ at most under the two jitter labels.\<close>

lemma loads_agree:
  assumes "rectangular df0"
    and "load_dataset py_str coerce uniform rnd s (Some df0) = Inr (d, s')"
    and "load_dataset py_str coerce uniform' rnd' t (Some df0) = Inr (e, t')"
  shows "agree_off [''lat_jitter'', ''lon_jitter''] d e"
proof -
  let ?J = "[''lat_jitter'', ''lon_jitter'']"
  from assms(2) obtain dl dj where
    l: "loader coerce (Some df0) = Inr dl" and
    aj: "add_jitter uniform rnd (dl, s) = Inr (dj, s')" and
    c: "clean_tags py_str dj = Inr d"
    by (rule load_dataset_Inr)
  from assms(3) obtain el ej where
    l': "loader coerce (Some df0) = Inr el" and
    aj': "add_jitter uniform' rnd' (el, t) = Inr (ej, t')" and
    c': "clean_tags py_str ej = Inr e"
    by (rule load_dataset_Inr)
  have el: "el = dl" using l l' by simp
  from aj obtain d1 s1 where
    j1: "jitter uniform rnd ''latitude'' ''lat_jitter'' (dl, s) = Inr (d1, s1)" and
    j2: "jitter uniform rnd ''longitude'' ''lon_jitter'' (d1, s1) = Inr (dj, s')"
    by (rule add_jitter_Inr)
  from aj' obtain e1 t1 where
    k1: "jitter uniform' rnd' ''latitude'' ''lat_jitter'' (dl, t) = Inr (e1, t1)" and
    k2: "jitter uniform' rnd' ''longitude'' ''lon_jitter'' (e1, t1) = Inr (ej, t')"
    unfolding el by (rule add_jitter_Inr)
  from c obtain d2 where
    c1: "clean_column py_str ''Stage'' dj = Inr d2" and
    c2: "clean_column py_str ''Sector'' d2 = Inr d"
    unfolding clean_tags_def by (auto split: sum.splits)
  from c' obtain e2 where
    c1': "clean_column py_str ''Stage'' ej = Inr e2" and
    c2': "clean_column py_str ''Sector'' e2 = Inr e"
    unfolding clean_tags_def by (auto split: sum.splits)
  have "rectangular dl" using assms(1) l by (rule loader_rectangular)
  then have a0: "agree_off ?J dl dl" by (rule agree_off_refl)
  have a1: "agree_off ?J d1 e1" using a0 _ j1 k1 by (rule jitter_agree) simp
  have a2: "agree_off ?J dj ej" using a1 _ j2 k2 by (rule jitter_agree) simp
  have a3: "agree_off ?J d2 e2" using a2 _ c1 c1' by (rule clean_column_agree) simp
  show ?thesis using a3 _ c2 c2' by (rule clean_column_agree) simp
qed

section \<open>Filter Engine: the claims\<close>

text \<open>
  C2.  When the selected sectors or the selected stages are empty, the filter returns
  the empty table (with the columns of the dataset) whatever the dataset holds, together
  with the warning; this is a result, not an error, so the script goes on.
\<close>

theorem empty_selection_gives_empty_result:
  assumes "selected_sectors = [] \<or> selected_stages = []"
  shows "filter_engine df selected_sectors selected_stages =
           Inr (Some warning_text, \<lparr>columns = columns df, rows = []\<rparr>)"
  using assms by (auto simp: filter_engine_def)

theorem empty_selection_gives_empty_result_witness:
  "(([] :: string list) = [] \<or> [''Seed''] = []) \<and>
   filter_engine vc_csv [] [''Seed''] =
     Inr (Some warning_text, \<lparr>columns = columns vc_csv, rows = []\<rparr>)"
  using empty_selection_gives_empty_result [of "[]" "[''Seed'']" vc_csv] by simp

text \<open>
  C1.  On a loaded dataset, with a selection of sectors and a selection of stages that
  are both not empty, the filter returns exactly the records (in their order) whose
  sector list holds at least one selected sector and whose stage list holds at least one
  selected stage; every record of a loaded dataset does hold a tag list under both
  labels.  In particular no record with sectors \<open>["Fintech", "SaaS"]\<close> and stages
  \<open>["Series A"]\<close> is returned for the selections \<open>{"Fintech"}\<close> and \<open>{"Seed"}\<close>.
\<close>

theorem filter_engine_selects_matching_records:
  assumes "rectangular df0"
    and "load_dataset py_str coerce uniform rnd s (Some df0) = Inr (df, s')"
    and "selected_sectors \<noteq> []" and "selected_stages \<noteq> []"
  shows "filter_engine df selected_sectors selected_stages =
           Inr (None, df\<lparr>rows := filter
             (\<lambda>r. (\<exists>t\<in>set (tags_at df ''Sector'' r). t \<in> set selected_sectors) \<and>
                  (\<exists>t\<in>set (tags_at df ''Stage'' r). t \<in> set selected_stages))
             (rows df)\<rparr>) \<and>
         (\<forall>r\<in>set (rows df).
            cell_at df ''Sector'' r = Some (Tags (tags_at df ''Sector'' r)) \<and>
            cell_at df ''Stage'' r = Some (Tags (tags_at df ''Stage'' r))) \<and>
         (\<exists>out. filter_engine df [''Fintech''] [''Seed''] = Inr (None, out) \<and>
            (\<forall>r\<in>set (rows out).
               \<not> (tags_at df ''Sector'' r = [''Fintech'', ''SaaS''] \<and>
                  tags_at df ''Stage'' r = [''Series A''])))"
proof (intro conjI)
  show "filter_engine df selected_sectors selected_stages =
           Inr (None, df\<lparr>rows := filter
             (\<lambda>r. (\<exists>t\<in>set (tags_at df ''Sector'' r). t \<in> set selected_sectors) \<and>
                  (\<exists>t\<in>set (tags_at df ''Stage'' r). t \<in> set selected_stages))
             (rows df)\<rparr>)"
    using assms by (rule filter_engine_loaded)
  show "\<forall>r\<in>set (rows df).
            cell_at df ''Sector'' r = Some (Tags (tags_at df ''Sector'' r)) \<and>
            cell_at df ''Stage'' r = Some (Tags (tags_at df ''Stage'' r))"
    using loaded_cells [OF assms(1,2)] by simp
  have "filter_engine df [''Fintech''] [''Seed''] =
           Inr (None, df\<lparr>rows := filter
             (\<lambda>r. (\<exists>t\<in>set (tags_at df ''Sector'' r). t \<in> set [''Fintech'']) \<and>
                  (\<exists>t\<in>set (tags_at df ''Stage'' r). t \<in> set [''Seed'']))
             (rows df)\<rparr>)"
    using assms(1,2) by (rule filter_engine_loaded) simp_all
  then show "\<exists>out. filter_engine df [''Fintech''] [''Seed''] = Inr (None, out) \<and>
            (\<forall>r\<in>set (rows out).
               \<not> (tags_at df ''Sector'' r = [''Fintech'', ''SaaS''] \<and>
                  tags_at df ''Stage'' r = [''Series A'']))"
    by auto
qed

theorem filter_engine_selects_matching_records_witness:
  "rectangular vc_csv \<and>
   load_dataset nan_str no_number stepping_uniform exact 0 (Some vc_csv) = Inr (vc_loaded, 8) \<and>
   [''Fintech''] \<noteq> ([] :: string list) \<and> [''Seed''] \<noteq> ([] :: string list) \<and>
   filter_engine vc_loaded [''Fintech''] [''Seed''] =
     Inr (None, vc_loaded\<lparr>rows := filter
       (\<lambda>r. (\<exists>t\<in>set (tags_at vc_loaded ''Sector'' r). t \<in> set [''Fintech'']) \<and>
            (\<exists>t\<in>set (tags_at vc_loaded ''Stage'' r). t \<in> set [''Seed'']))
       (rows vc_loaded)\<rparr>) \<and>
   filter_engine vc_loaded [''Fintech''] [''Seed''] =
     Inr (None, vc_loaded\<lparr>rows := [rows vc_loaded ! 0]\<rparr>)"
proof -
  have h3: "[''Fintech''] \<noteq> ([] :: string list)" and h4: "[''Seed''] \<noteq> ([] :: string list)"
    by simp_all
  have concrete: "filter_engine vc_loaded [''Fintech''] [''Seed''] =
      Inr (None, vc_loaded\<lparr>rows := [rows vc_loaded ! 0]\<rparr>)"
    by (simp add: filter_engine_def tag_mask_def getitem_def positions_def any_selected_def
        py_iter_def select_rows_def vc_loaded_def)
  show ?thesis
    using filter_engine_selects_matching_records [OF vc_csv_rectangular vc_csv_loaded h3 h4]
      vc_csv_rectangular vc_csv_loaded concrete
    by simp
qed

text \<open>
  C10.  A record of a loaded dataset whose sector list or whose stage list is empty is
  in no filter result, whatever the two selections are; the filter does return a result
  for every pair of selections.  That holds in particular for the default selection,
  which is every tag that occurs in the dataset.
\<close>

theorem untagged_record_never_selected:
  assumes "rectangular df0"
    and "load_dataset py_str coerce uniform rnd s (Some df0) = Inr (df, s')"
    and "r \<in> set (rows df)"
    and "tags_at df ''Sector'' r = [] \<or> tags_at df ''Stage'' r = []"
  shows "(\<forall>selected_sectors selected_stages. \<exists>w out.
            filter_engine df selected_sectors selected_stages = Inr (w, out) \<and>
            r \<notin> set (rows out)) \<and>
         (\<exists>all_sectors all_stages w out.
            all_tags df ''Sector'' = Inr all_sectors \<and>
            all_tags df ''Stage'' = Inr all_stages \<and>
            filter_engine df all_sectors all_stages = Inr (w, out) \<and>
            r \<notin> set (rows out))"
proof -
  have never: "\<exists>w out. filter_engine df sel stg = Inr (w, out) \<and> r \<notin> set (rows out)"
    for sel stg
  proof (cases "sel = [] \<or> stg = []")
    case True
    then have "filter_engine df sel stg =
        Inr (Some warning_text, \<lparr>columns = columns df, rows = []\<rparr>)"
      by (auto simp: filter_engine_def)
    then show ?thesis by simp
  next
    case False
    then have "filter_engine df sel stg =
           Inr (None, df\<lparr>rows := filter
             (\<lambda>r. (\<exists>t\<in>set (tags_at df ''Sector'' r). t \<in> set sel) \<and>
                  (\<exists>t\<in>set (tags_at df ''Stage'' r). t \<in> set stg))
             (rows df)\<rparr>)"
      using assms(1,2) by (intro filter_engine_loaded) simp_all
    then show ?thesis using assms(4) by auto
  qed
  from assms(1,2) obtain a b where
    a: "positions ''Sector'' (columns df) = [a]" and
    b: "positions ''Stage'' (columns df) = [b]" and
    tags: "\<forall>r\<in>set (rows df). \<exists>ts ss. r ! a = Tags ts \<and> r ! b = Tags ss"
    by (rule loaded_tags)
  obtain ss where ss: "all_tags df ''Sector'' = Inr ss"
    using all_tags_tagged [OF a] tags by blast
  obtain st where st: "all_tags df ''Stage'' = Inr st"
    using all_tags_tagged [OF b] tags by blast
  show ?thesis using never ss st by blast
qed

theorem untagged_record_never_selected_witness:
  "rectangular vc_csv \<and>
   load_dataset nan_str no_number stepping_uniform exact 0 (Some vc_csv) = Inr (vc_loaded, 8) \<and>
   rows vc_loaded ! 3 \<in> set (rows vc_loaded) \<and>
   (tags_at vc_loaded ''Sector'' (rows vc_loaded ! 3) = [] \<or>
    tags_at vc_loaded ''Stage'' (rows vc_loaded ! 3) = []) \<and>
   (\<forall>selected_sectors selected_stages. \<exists>w out.
      filter_engine vc_loaded selected_sectors selected_stages = Inr (w, out) \<and>
      rows vc_loaded ! 3 \<notin> set (rows out)) \<and>
   all_tags vc_loaded ''Sector'' = Inr [''Fintech'', ''Healthcare'', ''SaaS''] \<and>
   all_tags vc_loaded ''Stage'' = Inr [''Seed'', ''Series A''] \<and>
   filter_engine vc_loaded [''Fintech'', ''Healthcare'', ''SaaS''] [''Seed'', ''Series A''] =
     Inr (None, vc_loaded\<lparr>rows := take 3 (rows vc_loaded)\<rparr>)"
proof -
  have h3: "rows vc_loaded ! 3 \<in> set (rows vc_loaded)"
    by (simp add: vc_loaded_def)
  have h4: "tags_at vc_loaded ''Sector'' (rows vc_loaded ! 3) = [] \<or>
            tags_at vc_loaded ''Stage'' (rows vc_loaded ! 3) = []"
    by (simp add: tags_at_def cell_at_def positions_def vc_loaded_def)
  have d1: "all_tags vc_loaded ''Sector'' = Inr [''Fintech'', ''Healthcare'', ''SaaS'']"
    by (simp add: all_tags_def getitem_def positions_def py_iter_def vc_loaded_def)
  have d2: "all_tags vc_loaded ''Stage'' = Inr [''Seed'', ''Series A'']"
    by (simp add: all_tags_def getitem_def positions_def py_iter_def vc_loaded_def)
  have concrete:
    "filter_engine vc_loaded [''Fintech'', ''Healthcare'', ''SaaS''] [''Seed'', ''Series A''] =
       Inr (None, vc_loaded\<lparr>rows := take 3 (rows vc_loaded)\<rparr>)"
    by (simp add: filter_engine_def tag_mask_def getitem_def positions_def any_selected_def
        py_iter_def select_rows_def vc_loaded_def)
  show ?thesis
    using untagged_record_never_selected [OF vc_csv_rectangular vc_csv_loaded h3 h4]
      vc_csv_rectangular vc_csv_loaded h3 h4 d1 d2 concrete
    by blast
qed

section \<open>Coordinate Jitterer: the claim\<close>

text \<open>
  C7.  In a loaded dataset every record holds, under \<open>lat_jitter\<close>, its latitude plus the
  offset drawn for it, and, under \<open>lon_jitter\<close>, its longitude plus the offset drawn for
  it; the latitude offsets and the longitude offsets come from two successive calls of
  the generator.  When the generator keeps to its bounds and the floating-point rounding
  is monotone, every offset lies between -0.002 and 0.002, the jittered latitude lies
  between latitude - 0.002 and latitude + 0.002, and the jittered longitude between
  longitude - 0.002 and longitude + 0.002 (the sums taken as the program takes them, in
  floating point; they are the exact sums when the rounding changes nothing).
\<close>

theorem jitter_within_bounds:
  assumes "rectangular df0"
    and "load_dataset py_str coerce uniform rnd s (Some df0) = Inr (df, s')"
    and "\<forall>a b. a \<le> b \<longrightarrow> fl_le (rnd a) (rnd b)"
    and "\<forall>st lo hi n. lo \<le> hi \<longrightarrow> (\<forall>d\<in>set (fst (uniform st lo hi n)). lo \<le> d \<and> d \<le> hi)"
  shows "\<exists>lat_offsets s1 lon_offsets.
           uniform s (- 0.002) 0.002 (length (rows df)) = (lat_offsets, s1) \<and>
           uniform s1 (- 0.002) 0.002 (length (rows df)) = (lon_offsets, s') \<and>
           (\<forall>k<length (rows df). \<exists>x y.
              cell_at df ''latitude'' (rows df ! k) = Some (Num x) \<and>
              cell_at df ''longitude'' (rows df ! k) = Some (Num y) \<and>
              cells_at df ''lat_jitter'' (rows df ! k) \<noteq> [] \<and>
              cells_at df ''lon_jitter'' (rows df ! k) \<noteq> [] \<and>
              (\<forall>c\<in>set (cells_at df ''lat_jitter'' (rows df ! k)).
                 c = Num (fl_add rnd x (lat_offsets ! k))) \<and>
              (\<forall>c\<in>set (cells_at df ''lon_jitter'' (rows df ! k)).
                 c = Num (fl_add rnd y (lon_offsets ! k))) \<and>
              - 0.002 \<le> lat_offsets ! k \<and> lat_offsets ! k \<le> 0.002 \<and>
              - 0.002 \<le> lon_offsets ! k \<and> lon_offsets ! k \<le> 0.002 \<and>
              fl_le (fl_add rnd x (- 0.002)) (fl_add rnd x (lat_offsets ! k)) \<and>
              fl_le (fl_add rnd x (lat_offsets ! k)) (fl_add rnd x 0.002) \<and>
              fl_le (fl_add rnd y (- 0.002)) (fl_add rnd y (lon_offsets ! k)) \<and>
              fl_le (fl_add rnd y (lon_offsets ! k)) (fl_add rnd y 0.002))"
proof -
  from assms(1,2) obtain i j ds1 s1 ds2 where
    pi: "positions ''latitude'' (columns df) = [i]" and
    pj: "positions ''longitude'' (columns df) = [j]" and
    rect: "rectangular df" and
    u1: "uniform s (- 0.002) 0.002 (length (rows df)) = (ds1, s1)" and
    u2: "uniform s1 (- 0.002) 0.002 (length (rows df)) = (ds2, s')" and
    l1: "length ds1 = length (rows df)" and l2: "length ds2 = length (rows df)" and
    ne1: "positions ''lat_jitter'' (columns df) \<noteq> []" and
    ne2: "positions ''lon_jitter'' (columns df) \<noteq> []" and
    cells: "\<forall>k<length (rows df). \<exists>x y. x \<noteq> NaN \<and> y \<noteq> NaN \<and>
           rows df ! k ! i = Num x \<and> rows df ! k ! j = Num y \<and>
           (\<forall>p\<in>set (positions ''lat_jitter'' (columns df)).
              rows df ! k ! p = Num (fl_add rnd x (ds1 ! k))) \<and>
           (\<forall>p\<in>set (positions ''lon_jitter'' (columns df)).
              rows df ! k ! p = Num (fl_add rnd y (ds2 ! k)))"
    by (rule loaded_jitter)
  have b1: "- 0.002 \<le> d \<and> d \<le> 0.002" if "d \<in> set ds1" for d
  proof -
    have "\<forall>d\<in>set (fst (uniform s (- 0.002) 0.002 (length (rows df)))).
        - 0.002 \<le> d \<and> d \<le> 0.002"
      using assms(4) [rule_format, of "- 0.002" "0.002"] by (intro ballI) simp_all
    then show ?thesis using that u1 by simp
  qed
  have b2: "- 0.002 \<le> d \<and> d \<le> 0.002" if "d \<in> set ds2" for d
  proof -
    have "\<forall>d\<in>set (fst (uniform s1 (- 0.002) 0.002 (length (rows df)))).
        - 0.002 \<le> d \<and> d \<le> 0.002"
      using assms(4) [rule_format, of "- 0.002" "0.002"] by (intro ballI) simp_all
    then show ?thesis using that u2 by simp
  qed
  have row: "\<exists>x y.
              cell_at df ''latitude'' (rows df ! k) = Some (Num x) \<and>
              cell_at df ''longitude'' (rows df ! k) = Some (Num y) \<and>
              cells_at df ''lat_jitter'' (rows df ! k) \<noteq> [] \<and>
              cells_at df ''lon_jitter'' (rows df ! k) \<noteq> [] \<and>
              (\<forall>c\<in>set (cells_at df ''lat_jitter'' (rows df ! k)).
                 c = Num (fl_add rnd x (ds1 ! k))) \<and>
              (\<forall>c\<in>set (cells_at df ''lon_jitter'' (rows df ! k)).
                 c = Num (fl_add rnd y (ds2 ! k))) \<and>
              - 0.002 \<le> ds1 ! k \<and> ds1 ! k \<le> 0.002 \<and>
              - 0.002 \<le> ds2 ! k \<and> ds2 ! k \<le> 0.002 \<and>
              fl_le (fl_add rnd x (- 0.002)) (fl_add rnd x (ds1 ! k)) \<and>
              fl_le (fl_add rnd x (ds1 ! k)) (fl_add rnd x 0.002) \<and>
              fl_le (fl_add rnd y (- 0.002)) (fl_add rnd y (ds2 ! k)) \<and>
              fl_le (fl_add rnd y (ds2 ! k)) (fl_add rnd y 0.002)"
    if k: "k < length (rows df)" for k
  proof -
    from cells k obtain x y where
      x: "x \<noteq> NaN" "rows df ! k ! i = Num x" and
      y: "y \<noteq> NaN" "rows df ! k ! j = Num y" and
      lat: "\<forall>p\<in>set (positions ''lat_jitter'' (columns df)).
              rows df ! k ! p = Num (fl_add rnd x (ds1 ! k))" and
      lon: "\<forall>p\<in>set (positions ''lon_jitter'' (columns df)).
              rows df ! k ! p = Num (fl_add rnd y (ds2 ! k))"
      by blast
    have len: "length (rows df ! k) = length (columns df)"
      using rectangularD [OF rect nth_mem [OF k]] .
    have d1: "- 0.002 \<le> ds1 ! k" "ds1 ! k \<le> 0.002"
      using b1 [of "ds1 ! k"] k l1 by simp_all
    have d2: "- 0.002 \<le> ds2 ! k" "ds2 ! k \<le> 0.002"
      using b2 [of "ds2 ! k"] k l2 by simp_all
    have "cell_at df ''latitude'' (rows df ! k) = Some (Num x)"
      using cell_at_unique [OF pi len] x(2) by simp
    moreover have "cell_at df ''longitude'' (rows df ! k) = Some (Num y)"
      using cell_at_unique [OF pj len] y(2) by simp
    moreover have "cells_at df ''lat_jitter'' (rows df ! k) \<noteq> []"
      using ne1 by (simp add: cells_at_def)
    moreover have "cells_at df ''lon_jitter'' (rows df ! k) \<noteq> []"
      using ne2 by (simp add: cells_at_def)
    moreover have "\<forall>c\<in>set (cells_at df ''lat_jitter'' (rows df ! k)).
                 c = Num (fl_add rnd x (ds1 ! k))"
      using lat by (auto simp: cells_at_def)
    moreover have "\<forall>c\<in>set (cells_at df ''lon_jitter'' (rows df ! k)).
                 c = Num (fl_add rnd y (ds2 ! k))"
      using lon by (auto simp: cells_at_def)
    moreover have "- 0.002 \<le> ds1 ! k" using d1(1) .
    moreover have "ds1 ! k \<le> 0.002" using d1(2) .
    moreover have "- 0.002 \<le> ds2 ! k" using d2(1) .
    moreover have "ds2 ! k \<le> 0.002" using d2(2) .
    moreover have "fl_le (fl_add rnd x (- 0.002)) (fl_add rnd x (ds1 ! k))"
      using assms(3) x(1) d1(1) by (rule fl_add_mono)
    moreover have "fl_le (fl_add rnd x (ds1 ! k)) (fl_add rnd x 0.002)"
      using assms(3) x(1) d1(2) by (rule fl_add_mono)
    moreover have "fl_le (fl_add rnd y (- 0.002)) (fl_add rnd y (ds2 ! k))"
      using assms(3) y(1) d2(1) by (rule fl_add_mono)
    moreover have "fl_le (fl_add rnd y (ds2 ! k)) (fl_add rnd y 0.002)"
      using assms(3) y(1) d2(2) by (rule fl_add_mono)
    ultimately show ?thesis by (intro exI [of _ x] exI [of _ y] conjI)
  qed
  then have "\<forall>k<length (rows df). \<exists>x y.
              cell_at df ''latitude'' (rows df ! k) = Some (Num x) \<and>
              cell_at df ''longitude'' (rows df ! k) = Some (Num y) \<and>
              cells_at df ''lat_jitter'' (rows df ! k) \<noteq> [] \<and>
              cells_at df ''lon_jitter'' (rows df ! k) \<noteq> [] \<and>
              (\<forall>c\<in>set (cells_at df ''lat_jitter'' (rows df ! k)).
                 c = Num (fl_add rnd x (ds1 ! k))) \<and>
              (\<forall>c\<in>set (cells_at df ''lon_jitter'' (rows df ! k)).
                 c = Num (fl_add rnd y (ds2 ! k))) \<and>
              - 0.002 \<le> ds1 ! k \<and> ds1 ! k \<le> 0.002 \<and>
              - 0.002 \<le> ds2 ! k \<and> ds2 ! k \<le> 0.002 \<and>
              fl_le (fl_add rnd x (- 0.002)) (fl_add rnd x (ds1 ! k)) \<and>
              fl_le (fl_add rnd x (ds1 ! k)) (fl_add rnd x 0.002) \<and>
              fl_le (fl_add rnd y (- 0.002)) (fl_add rnd y (ds2 ! k)) \<and>
              fl_le (fl_add rnd y (ds2 ! k)) (fl_add rnd y 0.002)"
    by (intro allI impI)
  with u1 u2 show ?thesis
    by (intro exI [of _ ds1] exI [of _ s1] exI [of _ ds2] conjI)
qed

theorem jitter_within_bounds_witness:
  "rectangular vc_csv \<and>
   load_dataset nan_str no_number stepping_uniform exact 0 (Some vc_csv) = Inr (vc_loaded, 8) \<and>
   (\<exists>lat_offsets s1 lon_offsets.
      stepping_uniform 0 (- 0.002) 0.002 (length (rows vc_loaded)) = (lat_offsets, s1) \<and>
      stepping_uniform s1 (- 0.002) 0.002 (length (rows vc_loaded)) = (lon_offsets, 8) \<and>
      (\<forall>k<length (rows vc_loaded). \<exists>x y.
         cell_at vc_loaded ''latitude'' (rows vc_loaded ! k) = Some (Num x) \<and>
         cell_at vc_loaded ''longitude'' (rows vc_loaded ! k) = Some (Num y) \<and>
         cells_at vc_loaded ''lat_jitter'' (rows vc_loaded ! k) \<noteq> [] \<and>
         cells_at vc_loaded ''lon_jitter'' (rows vc_loaded ! k) \<noteq> [] \<and>
         (\<forall>c\<in>set (cells_at vc_loaded ''lat_jitter'' (rows vc_loaded ! k)).
            c = Num (fl_add exact x (lat_offsets ! k))) \<and>
         (\<forall>c\<in>set (cells_at vc_loaded ''lon_jitter'' (rows vc_loaded ! k)).
            c = Num (fl_add exact y (lon_offsets ! k))) \<and>
         - 0.002 \<le> lat_offsets ! k \<and> lat_offsets ! k \<le> 0.002 \<and>
         - 0.002 \<le> lon_offsets ! k \<and> lon_offsets ! k \<le> 0.002 \<and>
         fl_le (fl_add exact x (- 0.002)) (fl_add exact x (lat_offsets ! k)) \<and>
         fl_le (fl_add exact x (lat_offsets ! k)) (fl_add exact x 0.002) \<and>
         fl_le (fl_add exact y (- 0.002)) (fl_add exact y (lon_offsets ! k)) \<and>
         fl_le (fl_add exact y (lon_offsets ! k)) (fl_add exact y 0.002))) \<and>
   cell_at vc_loaded ''latitude'' (rows vc_loaded ! 0) = Some (Num (Fin 37.77)) \<and>
   cells_at vc_loaded ''lat_jitter'' (rows vc_loaded ! 0) = [Num (Fin 37.768)] \<and>
   fl_add exact (Fin 37.77) (- 0.002) = Fin 37.768"
proof -
  have h3: "\<forall>a b. a \<le> b \<longrightarrow> fl_le (exact a) (exact b)"
    by (simp add: exact_def)
  have h4: "\<forall>st lo hi n. lo \<le> hi \<longrightarrow>
      (\<forall>d\<in>set (fst (stepping_uniform st lo hi n)). lo \<le> d \<and> d \<le> hi)"
  proof (intro allI impI ballI)
    fix st :: nat and lo hi :: real and n d
    assume le: "lo \<le> hi" and d: "d \<in> set (fst (stepping_uniform st lo hi n))"
    then obtain m :: nat where m: "d = lo + (hi - lo) * (real (m mod 4) / 4)"
      by (auto simp: stepping_uniform_def)
    have q: "0 \<le> real (m mod 4) / 4" "real (m mod 4) / 4 \<le> 1"
      by simp_all
    have "0 \<le> (hi - lo) * (real (m mod 4) / 4)"
      using le q(1) by simp
    moreover have "(hi - lo) * (real (m mod 4) / 4) \<le> (hi - lo) * 1"
      using le q(2) by (intro mult_left_mono) simp_all
    ultimately show "lo \<le> d \<and> d \<le> hi" using m by simp
  qed
  have c1: "cell_at vc_loaded ''latitude'' (rows vc_loaded ! 0) = Some (Num (Fin 37.77))"
    by (simp add: cell_at_def positions_def vc_loaded_def)
  have c2: "cells_at vc_loaded ''lat_jitter'' (rows vc_loaded ! 0) = [Num (Fin 37.768)]"
    by (simp add: cells_at_def positions_def vc_loaded_def)
  have c3: "fl_add exact (Fin 37.77) (- 0.002) = Fin 37.768"
    by (simp add: fl_add_def exact_def)
  note t = jitter_within_bounds [OF vc_csv_rectangular vc_csv_loaded h3 h4]
  from vc_csv_rectangular vc_csv_loaded t c1 c2 c3 show ?thesis
    by (intro conjI)
qed

section \<open>Jitter and the filter\<close>

text \<open>
  C9.  Two runs on the same file with the same two selections, whatever the random
  generator, its state and the rounding are in each, load datasets that differ at most
  under \<open>lat_jitter\<close> and \<open>lon_jitter\<close>, and the filter answers both in the same way: the
  same warning or none, and the records at the same positions.  Apart from the two
  jitter columns the two results are the same table.
\<close>

theorem jitter_never_influences_filter:
  assumes "rectangular df0"
    and "load_dataset py_str coerce uniform rnd s (Some df0) = Inr (df, s')"
    and "load_dataset py_str coerce uniform' rnd' t (Some df0) = Inr (df', t')"
  shows "agree_off [''lat_jitter'', ''lon_jitter''] df df' \<and>
         (\<exists>w keep.
            length keep = length (rows df) \<and> length keep = length (rows df') \<and>
            filter_engine df selected_sectors selected_stages = Inr (w, select_rows df keep) \<and>
            filter_engine df' selected_sectors selected_stages = Inr (w, select_rows df' keep) \<and>
            drop_labels [''lat_jitter'', ''lon_jitter''] (select_rows df keep) =
            drop_labels [''lat_jitter'', ''lon_jitter''] (select_rows df' keep))"
proof -
  let ?J = "[''lat_jitter'', ''lon_jitter'']"
  have ag: "agree_off ?J df df'" using assms by (rule loads_agree)
  have n: "length (rows df) = length (rows df')" using ag by (rule agree_offD(4))
  have dl: "drop_labels ?J (select_rows df keep) = drop_labels ?J (select_rows df' keep)"
    for keep
    using select_rows_agree [OF ag] by (rule drop_labels_agree)
  have "\<exists>w keep. length keep = length (rows df) \<and>
          filter_engine df selected_sectors selected_stages = Inr (w, select_rows df keep) \<and>
          filter_engine df' selected_sectors selected_stages = Inr (w, select_rows df' keep)"
  proof (cases "selected_sectors = [] \<or> selected_stages = []")
    case True
    have none: "map fst (filter snd (zip rs (replicate k False))) = []"
      for rs :: "cell list list" and k
      by (auto simp: filter_empty_conv dest: set_zip_rightD)
    have "filter_engine df selected_sectors selected_stages =
        Inr (Some warning_text, select_rows df (replicate (length (rows df)) False))"
      using True by (auto simp: filter_engine_def select_rows_def none)
    moreover have "filter_engine df' selected_sectors selected_stages =
        Inr (Some warning_text, select_rows df' (replicate (length (rows df)) False))"
      using True by (auto simp: filter_engine_def select_rows_def none)
    ultimately show ?thesis
      by (intro exI [of _ "Some warning_text"]
          exI [of _ "replicate (length (rows df)) False"]) simp
  next
    case False
    from assms(1,2) obtain a b where
      a: "positions ''Sector'' (columns df) = [a]" and
      b: "positions ''Stage'' (columns df) = [b]" and
      tags: "\<forall>r\<in>set (rows df). \<exists>ts ss. r ! a = Tags ts \<and> r ! b = Tags ss"
      by (rule loaded_tags)
    let ?f = "\<lambda>r. list_ex (\<lambda>s. s \<in> set selected_sectors)
        (case r ! a of Tags ts \<Rightarrow> ts | _ \<Rightarrow> [])"
    let ?g = "\<lambda>r. list_ex (\<lambda>s. s \<in> set selected_stages)
        (case r ! b of Tags ts \<Rightarrow> ts | _ \<Rightarrow> [])"
    let ?keep = "map2 (\<and>) (map ?f (rows df)) (map ?g (rows df))"
    have m1: "tag_mask df ''Sector'' selected_sectors = Inr (map ?f (rows df))"
      using a tags by (intro tag_mask_tagged) blast+
    have m2: "tag_mask df ''Stage'' selected_stages = Inr (map ?g (rows df))"
      using b tags by (intro tag_mask_tagged) blast+
    have m1': "tag_mask df' ''Sector'' selected_sectors = Inr (map ?f (rows df))"
      using tag_mask_agree [OF ag, of "''Sector''" selected_sectors] m1 by simp
    have m2': "tag_mask df' ''Stage'' selected_stages = Inr (map ?g (rows df))"
      using tag_mask_agree [OF ag, of "''Stage''" selected_stages] m2 by simp
    have "filter_engine df selected_sectors selected_stages = Inr (None, select_rows df ?keep)"
      using False m1 m2 by (simp add: filter_engine_def)
    moreover have
      "filter_engine df' selected_sectors selected_stages = Inr (None, select_rows df' ?keep)"
      using False m1' m2' by (simp add: filter_engine_def)
    moreover have "length ?keep = length (rows df)" by simp
    ultimately show ?thesis by blast
  qed
  then obtain w keep where
    "length keep = length (rows df)"
    "filter_engine df selected_sectors selected_stages = Inr (w, select_rows df keep)"
    "filter_engine df' selected_sectors selected_stages = Inr (w, select_rows df' keep)"
    by blast
  with n dl [of keep] have "\<exists>w keep.
            length keep = length (rows df) \<and> length keep = length (rows df') \<and>
            filter_engine df selected_sectors selected_stages = Inr (w, select_rows df keep) \<and>
            filter_engine df' selected_sectors selected_stages = Inr (w, select_rows df' keep) \<and>
            drop_labels [''lat_jitter'', ''lon_jitter''] (select_rows df keep) =
            drop_labels [''lat_jitter'', ''lon_jitter''] (select_rows df' keep)"
    by (intro exI [of _ w] exI [of _ keep]) simp
  with ag show ?thesis by (rule conjI)
qed

theorem jitter_never_influences_filter_witness:
  "rectangular vc_csv \<and>
   load_dataset nan_str no_number stepping_uniform exact 0 (Some vc_csv) = Inr (vc_loaded, 8) \<and>
   load_dataset nan_str no_number stepping_uniform exact 2 (Some vc_csv) =
     Inr (vc_reloaded, 10) \<and>
   vc_loaded \<noteq> vc_reloaded \<and>
   agree_off [''lat_jitter'', ''lon_jitter''] vc_loaded vc_reloaded \<and>
   (\<exists>w keep.
      length keep = length (rows vc_loaded) \<and> length keep = length (rows vc_reloaded) \<and>
      filter_engine vc_loaded [''Fintech''] [''Seed''] = Inr (w, select_rows vc_loaded keep) \<and>
      filter_engine vc_reloaded [''Fintech''] [''Seed''] =
        Inr (w, select_rows vc_reloaded keep) \<and>
      drop_labels [''lat_jitter'', ''lon_jitter''] (select_rows vc_loaded keep) =
      drop_labels [''lat_jitter'', ''lon_jitter''] (select_rows vc_reloaded keep)) \<and>
   filter_engine vc_loaded [''Fintech''] [''Seed''] =
     Inr (None, vc_loaded\<lparr>rows := [rows vc_loaded ! 0]\<rparr>) \<and>
   filter_engine vc_reloaded [''Fintech''] [''Seed''] =
     Inr (None, vc_reloaded\<lparr>rows := [rows vc_reloaded ! 0]\<rparr>) \<and>
   rows vc_loaded ! 0 \<noteq> rows vc_reloaded ! 0"
proof -
  have h3: "load_dataset nan_str no_number stepping_uniform exact 2 (Some vc_csv) =
      Inr (vc_reloaded, 10)"
    by (simp add: load_dataset_def loader_def normalize_columns_def rename_def
        strip_columns_def aliases_def str_strip_def isspace_def force_numeric_def getitem_def
        setitem_def positions_def to_numeric_def dropna_def isna_def add_jitter_def jitter_def
        series_add_def fl_add_def stepping_uniform_def exact_def nan_str_def no_number_def
        vc_csv_def clean_tags_def clean_column_def parse_tags_def astype_str_def tag_parser_def
        str_split_def vc_reloaded_def Let_def)
  have ne: "vc_loaded \<noteq> vc_reloaded"
    by (simp add: vc_loaded_def vc_reloaded_def)
  have f1: "filter_engine vc_loaded [''Fintech''] [''Seed''] =
      Inr (None, vc_loaded\<lparr>rows := [rows vc_loaded ! 0]\<rparr>)"
    by (simp add: filter_engine_def tag_mask_def getitem_def positions_def any_selected_def
        py_iter_def select_rows_def vc_loaded_def)
  have f2: "filter_engine vc_reloaded [''Fintech''] [''Seed''] =
      Inr (None, vc_reloaded\<lparr>rows := [rows vc_reloaded ! 0]\<rparr>)"
    by (simp add: filter_engine_def tag_mask_def getitem_def positions_def any_selected_def
        py_iter_def select_rows_def vc_reloaded_def)
  have r0: "rows vc_loaded ! 0 \<noteq> rows vc_reloaded ! 0"
    by (simp add: vc_loaded_def vc_reloaded_def)
  note t = jitter_never_influences_filter [OF vc_csv_rectangular vc_csv_loaded h3,
      of "[''Fintech'']" "[''Seed'']"]
  from vc_csv_rectangular vc_csv_loaded h3 ne t [THEN conjunct1] t [THEN conjunct2] f1 f2 r0
  show ?thesis by (intro conjI)
qed

end
